theory Spec2Isabelle
  imports Main "HOL-Library.Multiset" "HOL-Library.DAList" "HOL-Library.Char_ord"
    "HOL-Library.List_Lexorder"
begin

section \<open>Messages, responses and counters\<close>

text \<open>
  A Go \<^verbatim>\<open>[]byte\<close> is a list of 8-bit characters. The packages \<^verbatim>\<open>lib/message\<close>,
  \<^verbatim>\<open>lib/response\<close>, \<^verbatim>\<open>lib/types\<close> and \<^verbatim>\<open>lib/metrics\<close> are used by the processors
  but their declarations are not among the source files; the types below follow the
  data model of the specification (section 3) and the way the processors use them.
\<close>

type_synonym bytes = "char list"

text \<open>
  Modelled from the spec: the declaration of \<^verbatim>\<open>types.Message\<close> is missing. A message is
  an ordered sequence of parts and a mapping from string keys to string values. The Go
  map is an association list with one entry per key (\<open>alist\<close>): \<open>DAList.lookup\<close> reads
  a key and \<open>DAList.impl_of\<close> lists the entries.
\<close>

record message =
  msg_parts :: "bytes list"
  msg_metadata :: "(string, string) alist"

text \<open>
  Modelled from the spec: the declaration of \<^verbatim>\<open>types.Response\<close> is missing. The
  constructors \<^verbatim>\<open>response.NewAck()\<close>, \<^verbatim>\<open>response.NewUnack()\<close> and
  \<^verbatim>\<open>response.NewError(e)\<close> build \<open>Ack\<close>, \<open>SkipAck\<close> and \<open>Error e\<close>; a Go \<^verbatim>\<open>nil\<close>
  response is \<open>None\<close> of \<open>response option\<close>.
\<close>

datatype response = Ack | SkipAck | Error string

definition NewAck :: response where
  "NewAck = Ack"

definition NewUnack :: response where
  "NewUnack = SkipAck"

text \<open>
  Modelled from the spec: the error values of package \<^verbatim>\<open>types\<close> that the source files
  name (\<^verbatim>\<open>types.ErrAlreadyStarted\<close>, \<^verbatim>\<open>types.ErrInvalidScaleProtoType\<close>,
  \<^verbatim>\<open>types.ErrTimeout\<close>); \<open>ErrOther\<close> is any other error, by its text.
\<close>

datatype error = ErrAlreadyStarted | ErrInvalidScaleProtoType | ErrTimeout | ErrOther string

text \<open>
  Modelled from the spec: the methods of a message that the processors call.
  \<^verbatim>\<open>message.New(parts)\<close> has the given parts and no metadata, \<^verbatim>\<open>Len()\<close> is the number of
  parts and \<^verbatim>\<open>GetAll()\<close> the parts in order.
\<close>

definition message_New :: "bytes list \<Rightarrow> message" where
  "message_New ps = \<lparr>msg_parts = ps, msg_metadata = DAList.empty\<rparr>"

definition Len :: "message \<Rightarrow> int" where
  "Len m = int (length (msg_parts m))"

definition GetAll :: "message \<Rightarrow> bytes list" where
  "GetAll m = msg_parts m"

text \<open>
  Modelled from the spec: \<^verbatim>\<open>SetMetadata(k, v)\<close> assigns into the map, replacing an older
  value of the key.
\<close>

definition SetMetadata :: "string \<Rightarrow> string \<Rightarrow> message \<Rightarrow> message" where
  "SetMetadata k v m = m\<lparr>msg_metadata := DAList.update k v (msg_metadata m)\<rparr>"

text \<open>
  Modelled from the spec: \<^verbatim>\<open>GetMetadata(k)\<close> is the value of the key, the empty string
  when it is absent.
\<close>

definition GetMetadata :: "message \<Rightarrow> string \<Rightarrow> string" where
  "GetMetadata m k = (case DAList.lookup (msg_metadata m) k of None \<Rightarrow> [] | Some v \<Rightarrow> v)"

text \<open>
  Modelled from the spec: \<^verbatim>\<open>IterMetadata(f)\<close> calls \<open>f\<close> on every key and value of the
  message, in the order of the entries (Go leaves the order open). The callbacks of
  the source never return an error, so the iteration always runs to the end; the state
  the callback works on is threaded through. \<open>iter_entries\<close> is the loop over the entries.
\<close>

fun iter_entries :: "(string \<times> string) list \<Rightarrow> (string \<Rightarrow> string \<Rightarrow> 's \<Rightarrow> 's) \<Rightarrow> 's \<Rightarrow> 's" where
  "iter_entries [] f s = s"
| "iter_entries ((k, v) # kvs) f s = iter_entries kvs f (f k v s)"

definition IterMetadata :: "message \<Rightarrow> (string \<Rightarrow> string \<Rightarrow> 's \<Rightarrow> 's) \<Rightarrow> 's \<Rightarrow> 's" where
  "IterMetadata m f s = iter_entries (DAList.impl_of (msg_metadata m)) f s"

text \<open>
  Modelled from the spec: the metrics sink (package \<^verbatim>\<open>metrics\<close>).
  \<^verbatim>\<open>stats.GetCounter(name)\<close> gives a counter and \<^verbatim>\<open>Incr(k)\<close> adds to it; counters are
  increment-only. A sink is the value of every counter, by name.
\<close>

type_synonym stats = "string \<Rightarrow> int"

definition Incr :: "string \<Rightarrow> int \<Rightarrow> stats \<Rightarrow> stats" where
  "Incr name k st = st(name := st name + k)"

text \<open>A sink with every counter at zero, in the place of the \<^verbatim>\<open>metrics.DudType{}\<close> of the tests.\<close>

definition DudType :: stats where
  "DudType = (\<lambda>_. 0)"

section \<open>The BoundsCheck processor\<close>

record BoundsCheckConfig =
  MaxParts :: int
  MinParts :: int
  MaxPartSize :: int
  MinPartSize :: int

definition NewBoundsCheckConfig :: BoundsCheckConfig where
  "NewBoundsCheckConfig =
     \<lparr>MaxParts = 100, MinParts = 1, MaxPartSize = 1 * 1024 * 1024 * 1024, MinPartSize = 1\<rparr>"

record BoundsCheck =
  bc_conf :: BoundsCheckConfig
  bc_stats :: stats

definition NewBoundsCheck :: "BoundsCheckConfig \<Rightarrow> stats \<Rightarrow> error + BoundsCheck" where
  "NewBoundsCheck conf st = Inr \<lparr>bc_conf = conf, bc_stats = st\<rparr>"

text \<open>
  The loop over the parts of \<^verbatim>\<open>ProcessMessage\<close>: it returns at the first part whose size
  is above the maximum or below the minimum; the result is the size of that part, or
  \<open>None\<close> when the loop runs to its end.
\<close>

fun part_size_reject :: "BoundsCheckConfig \<Rightarrow> bytes list \<Rightarrow> int option" where
  "part_size_reject conf [] = None"
| "part_size_reject conf (part # rest) =
     (let sz = int (length part) in
      if sz > MaxPartSize conf \<or> sz < MinPartSize conf then Some sz
      else part_size_reject conf rest)"

text \<open>
  \<^verbatim>\<open>BoundsCheck.ProcessMessage\<close>. The result is the processor after the call (its counters),
  the emitted messages (a \<^verbatim>\<open>nil\<close> slice is the empty list) and the response. Debug logging
  has no effect on the result and is left out.
\<close>

definition BoundsCheck_ProcessMessage ::
    "BoundsCheck \<Rightarrow> message \<Rightarrow> BoundsCheck \<times> message list \<times> response option" where
  "BoundsCheck_ProcessMessage m msg =
     (let st1 = Incr ''processor.bounds_check.count'' 1 (bc_stats m);
          lParts = Len msg in
      if lParts < MinParts (bc_conf m) then
        (m\<lparr>bc_stats := Incr ''processor.bounds_check.dropped_empty'' 1
                         (Incr ''processor.bounds_check.dropped'' 1 st1)\<rparr>,
         [], Some NewAck)
      else if lParts > MaxParts (bc_conf m) then
        (m\<lparr>bc_stats := Incr ''processor.bounds_check.dropped_num_parts'' 1
                         (Incr ''processor.bounds_check.dropped'' 1 st1)\<rparr>,
         [], Some NewAck)
      else
        (case part_size_reject (bc_conf m) (GetAll msg) of
           Some sz \<Rightarrow>
             (m\<lparr>bc_stats := Incr ''processor.bounds_check.dropped_part_size'' 1
                              (Incr ''processor.bounds_check.dropped'' 1 st1)\<rparr>,
              [], Some NewAck)
         | None \<Rightarrow>
             (m\<lparr>bc_stats := Incr ''processor.bounds_check.parts.sent'' (Len msg)
                              (Incr ''processor.bounds_check.sent'' 1 st1)\<rparr>,
              [msg], None)))"

section \<open>The Combine processor\<close>

record CombineConfig =
  Parts :: int

definition NewCombineConfig :: CombineConfig where
  "NewCombineConfig = \<lparr>Parts = 2\<rparr>"

text \<open>
  The struct \<^verbatim>\<open>Combine\<close>: the threshold \<^verbatim>\<open>n\<close>, the buffered parts \<^verbatim>\<open>parts\<close> and the
  counters. The fields are named \<open>combine_n\<close> and \<open>combine_parts\<close> here.
\<close>

record Combine =
  combine_n :: int
  combine_parts :: "bytes list"
  combine_stats :: stats

text \<open>
  \<^verbatim>\<open>NewCombine\<close>: the threshold is copied from the configuration as it is, the buffer is
  the zero value (\<^verbatim>\<open>nil\<close>) and the returned error is always \<^verbatim>\<open>nil\<close>.
\<close>

definition NewCombine :: "CombineConfig \<Rightarrow> stats \<Rightarrow> error + Combine" where
  "NewCombine conf st = Inr \<lparr>combine_n = Parts conf, combine_parts = [], combine_stats = st\<rparr>"

text \<open>The loop \<^verbatim>\<open>for _, part := range msg.GetAll() { c.parts = append(c.parts, part) }\<close>.\<close>

fun append_parts :: "bytes list \<Rightarrow> bytes list \<Rightarrow> bytes list" where
  "append_parts buf [] = buf"
| "append_parts buf (part # rest) = append_parts (buf @ [part]) rest"

text \<open>
  \<^verbatim>\<open>Combine.ProcessMessage\<close>. The result is the processor after the call, the emitted
  messages and the response (\<open>None\<close> for \<^verbatim>\<open>nil\<close>). Trace logging is left out.
\<close>

definition Combine_ProcessMessage ::
    "Combine \<Rightarrow> message \<Rightarrow> Combine \<times> message list \<times> response option" where
  "Combine_ProcessMessage c msg =
     (let st1 = Incr ''processor.combine.count'' 1 (combine_stats c) in
      if Len msg > combine_n c then
        (c\<lparr>combine_stats := Incr ''processor.combine.parts.sent'' (Len msg)
                              (Incr ''processor.combine.sent'' 1
                                (Incr ''processor.combine.warning.too_many_parts'' 1 st1))\<rparr>,
         [msg], None)
      else
        (let buf = append_parts (combine_parts c) (GetAll msg) in
         if int (length buf) \<ge> combine_n c then
           (let newMsg = IterMetadata msg SetMetadata (message_New buf)
            in (c\<lparr>combine_parts := [],
                   combine_stats := Incr ''processor.combine.parts.sent'' (Len newMsg)
                                      (Incr ''processor.combine.sent'' 1 st1)\<rparr>,
                [newMsg], None))
         else
           (c\<lparr>combine_parts := buf,
               combine_stats := Incr ''processor.combine.dropped'' 1 st1\<rparr>,
            [], Some NewUnack)))"

text \<open>
  A processor is driven by one task that calls \<^verbatim>\<open>ProcessMessage\<close> once per received
  message. \<open>Combine_run\<close> feeds a sequence of messages to the processor, in order, and
  collects what every call returns.
\<close>

fun Combine_run ::
    "Combine \<Rightarrow> message list \<Rightarrow> Combine \<times> (message list \<times> response option) list" where
  "Combine_run c [] = (c, [])"
| "Combine_run c (msg # rest) =
     (case Combine_ProcessMessage c msg of
        (c', outs, res) \<Rightarrow>
          (case Combine_run c' rest of (c'', rs) \<Rightarrow> (c'', (outs, res) # rs)))"

text \<open>All messages emitted by a run, in the order of emission.\<close>

definition emitted :: "(message list \<times> response option) list \<Rightarrow> message list" where
  "emitted rs = concat (map fst rs)"

text \<open>All parts of a sequence of messages, in order.\<close>

definition all_parts :: "message list \<Rightarrow> bytes list" where
  "all_parts ms = concat (map msg_parts ms)"

section \<open>The Nanomsg output\<close>

text \<open>
  The socket library (\<^verbatim>\<open>go-mangos\<close>) is an external collaborator. Its calls can fail; what
  each call returns is a parameter of the model. A channel is known by its identity only.
\<close>

type_synonym chan = nat

record NanomsgConfig =
  URLs :: "string list"
  Bind :: bool
  SocketType :: string
  PollTimeoutMS :: int

definition NewNanomsgConfig :: NanomsgConfig where
  "NewNanomsgConfig =
     \<lparr>URLs = [''tcp://localhost:5556''], Bind = False, SocketType = ''PUSH'', PollTimeoutMS = 5000\<rparr>"

datatype socket_kind = PushSocket | PubSocket

record mangos =
  new_socket :: "socket_kind \<Rightarrow> error option"
  set_option :: "int \<Rightarrow> error option"
  listen :: "string \<Rightarrow> error option"
  dial :: "string \<Rightarrow> error option"

text \<open>
  The struct \<^verbatim>\<open>Nanomsg\<close>. A \<^verbatim>\<open>nil\<close> channel in \<^verbatim>\<open>transactions\<close> is \<open>None\<close>; \<open>closeChan_closed\<close>
  and \<open>closedChan_closed\<close> say whether the two signal channels have been closed, and
  \<open>started\<close> counts the goroutines started by \<^verbatim>\<open>go s.loop()\<close>.
\<close>

record Nanomsg =
  running :: int
  urls :: "string list"
  nm_conf :: NanomsgConfig
  socket :: socket_kind
  transactions :: "chan option"
  closedChan_closed :: bool
  closeChan_closed :: bool
  started :: nat

text \<open>\<^verbatim>\<open>strings.Split(u, ",")\<close> for a one-character separator.\<close>

fun Split :: "string \<Rightarrow> char \<Rightarrow> string list" where
  "Split [] sep = [[]]"
| "Split (c # cs) sep =
     (if c = sep then [] # Split cs sep
      else (case Split cs sep of [] \<Rightarrow> [[c]] | w # ws \<Rightarrow> (c # w) # ws))"

text \<open>The nested iteration of \<^verbatim>\<open>NewNanomsg\<close> that collects the non-empty URLs.\<close>

fun collect_urls :: "string list \<Rightarrow> string list \<Rightarrow> string list" where
  "collect_urls acc [] = acc"
| "collect_urls acc (u # us) =
     collect_urls (acc @ filter (\<lambda>splitU. length splitU > 0) (Split u CHR '','')) us"

definition getSocketFromType :: "mangos \<Rightarrow> string \<Rightarrow> error + socket_kind" where
  "getSocketFromType env t =
     (if t = ''PUSH'' then (case new_socket env PushSocket of Some e \<Rightarrow> Inl e | None \<Rightarrow> Inr PushSocket)
      else if t = ''PUB'' then (case new_socket env PubSocket of Some e \<Rightarrow> Inl e | None \<Rightarrow> Inr PubSocket)
      else Inl ErrInvalidScaleProtoType)"

text \<open>
  The iteration \<^verbatim>\<open>for _, addr := range s.urls { if err = connect(addr); err != nil { break } }\<close>:
  the first error, or \<^verbatim>\<open>nil\<close>.
\<close>

fun first_error :: "(string \<Rightarrow> error option) \<Rightarrow> string list \<Rightarrow> error option" where
  "first_error connect [] = None"
| "first_error connect (addr # rest) =
     (case connect addr of Some e \<Rightarrow> Some e | None \<Rightarrow> first_error connect rest)"

definition NewNanomsg :: "NanomsgConfig \<Rightarrow> mangos \<Rightarrow> error + Nanomsg" where
  "NewNanomsg cf env =
     (let us = collect_urls [] (URLs cf) in
      case getSocketFromType env (SocketType cf) of
        Inl err \<Rightarrow> Inl err
      | Inr sock \<Rightarrow>
          (case set_option env (PollTimeoutMS cf) of
             Some err \<Rightarrow> Inl err
           | None \<Rightarrow>
               (case (if Bind cf then first_error (listen env) us else first_error (dial env) us) of
                  Some err \<Rightarrow> Inl err
                | None \<Rightarrow>
                    Inr \<lparr>running = 1, urls = us, nm_conf = cf, socket = sock, transactions = None,
                         closedChan_closed = False, closeChan_closed = False, started = 0\<rparr>)))"

text \<open>
  \<^verbatim>\<open>Consume\<close>: refuses when a channel is already assigned; otherwise stores the channel and
  starts the loop. The result is the output after the call and the returned error
  (\<open>None\<close> for \<^verbatim>\<open>nil\<close>).
\<close>

definition Consume :: "Nanomsg \<Rightarrow> chan option \<Rightarrow> Nanomsg \<times> error option" where
  "Consume s ts =
     (if transactions s \<noteq> None then (s, Some ErrAlreadyStarted)
      else (s\<lparr>transactions := ts, started := Suc (started s)\<rparr>, None))"

text \<open>\<^verbatim>\<open>CloseAsync\<close>: the compare-and-swap of \<^verbatim>\<open>running\<close> from 1 to 0 closes \<^verbatim>\<open>closeChan\<close>.\<close>

definition CloseAsync :: "Nanomsg \<Rightarrow> Nanomsg" where
  "CloseAsync s = (if running s = 1 then s\<lparr>running := 0, closeChan_closed := True\<rparr> else s)"

text \<open>
  The loop started by \<^verbatim>\<open>Consume\<close> receives from \<^verbatim>\<open>transactions\<close> and sends to the socket; it
  assigns no field of the struct before it returns. \<open>loop_exit\<close> is its deferred function,
  run when the loop returns.
\<close>

definition loop_exit :: "Nanomsg \<Rightarrow> Nanomsg" where
  "loop_exit s = s\<lparr>running := 0, closedChan_closed := True\<rparr>"

text \<open>
  What can happen to an output after its construction: a call of \<^verbatim>\<open>Consume\<close>, a call of
  \<^verbatim>\<open>CloseAsync\<close>, or the return of a started loop. \<open>Nanomsg_run\<close> applies a sequence of
  such events and collects the error returned by every \<^verbatim>\<open>Consume\<close> (\<open>None\<close> for the other
  events, which return nothing).
\<close>

datatype event = CallConsume "chan option" | CallCloseAsync | LoopReturns

fun Nanomsg_step :: "Nanomsg \<Rightarrow> event \<Rightarrow> Nanomsg \<times> error option" where
  "Nanomsg_step s (CallConsume ts) = Consume s ts"
| "Nanomsg_step s CallCloseAsync = (CloseAsync s, None)"
| "Nanomsg_step s LoopReturns = (if started s > 0 then loop_exit s else s, None)"

fun Nanomsg_run :: "Nanomsg \<Rightarrow> event list \<Rightarrow> Nanomsg \<times> error option list" where
  "Nanomsg_run s [] = (s, [])"
| "Nanomsg_run s (ev # evs) =
     (case Nanomsg_step s ev of
        (s', r) \<Rightarrow> (case Nanomsg_run s' evs of (s'', rs) \<Rightarrow> (s'', r # rs)))"

text \<open>A socket library none of whose calls fails.\<close>

definition no_failures :: mangos where
  "no_failures = \<lparr>new_socket = (\<lambda>_. None), set_option = (\<lambda>_. None), listen = (\<lambda>_. None), dial = (\<lambda>_. None)\<rparr>"

section \<open>Wrapping an input with pipelines\<close>

text \<open>
  The functions \<^verbatim>\<open>WrapWithPipeline\<close> and \<^verbatim>\<open>WrapWithPipelines\<close> of package \<^verbatim>\<open>input\<close> are
  not among the source files; only their tests are (\<^verbatim>\<open>TestBasicWrapPipeline\<close>,
  \<^verbatim>\<open>TestWrapZeroPipelines\<close>, \<^verbatim>\<open>TestBasicWrapMultiPipelines\<close>). The definitions of this
  section follow section 4.6 of the specification and the mock types of the tests.
\<close>

text \<open>
  Modelled from the spec: a pipeline, as far as wrapping sees it (the \<^verbatim>\<open>mockPipe\<close> of the
  tests): the upstream channel given to \<^verbatim>\<open>Consume\<close>, its own output channel and whether it
  has been closed.
\<close>

record pipeline =
  pipe_tsIn :: "chan option"
  pipe_ts :: chan
  pipe_closed :: bool

text \<open>
  Modelled from the spec: an input is a source with its transaction channel (and whether
  it has been closed), or the composite of an input and a pipeline spliced behind it.
\<close>

datatype input = Source chan bool | WithPipeline input pipeline

text \<open>
  Modelled from the spec: the \<^verbatim>\<open>TransactionChan\<close> of a composite input is the output of its
  last pipeline.
\<close>

fun Input_TransactionChan :: "input \<Rightarrow> chan" where
  "Input_TransactionChan (Source c closed) = c"
| "Input_TransactionChan (WithPipeline i p) = pipe_ts p"

text \<open>
  Modelled from the spec: shutdown of a composite input cascades, the input first and then
  each pipeline in order; \<open>close_order\<close> lists the channels in the order they are closed.
\<close>

fun Input_CloseAsync :: "input \<Rightarrow> input" where
  "Input_CloseAsync (Source c closed) = Source c True"
| "Input_CloseAsync (WithPipeline i p) = WithPipeline (Input_CloseAsync i) (p\<lparr>pipe_closed := True\<rparr>)"

fun close_order :: "input \<Rightarrow> chan list" where
  "close_order (Source c closed) = [c]"
| "close_order (WithPipeline i p) = close_order i @ [pipe_ts p]"

text \<open>Modelled from the spec: \<^verbatim>\<open>Consume\<close> and \<^verbatim>\<open>CloseAsync\<close> of a pipeline.\<close>

definition Pipeline_Consume :: "pipeline \<Rightarrow> chan \<Rightarrow> pipeline" where
  "Pipeline_Consume p upstream = p\<lparr>pipe_tsIn := Some upstream\<rparr>"

definition Pipeline_CloseAsync :: "pipeline \<Rightarrow> pipeline" where
  "Pipeline_CloseAsync p = p\<lparr>pipe_closed := True\<rparr>"

text \<open>
  Modelled from the spec: \<^verbatim>\<open>WrapWithPipelines(input, ctors...)\<close> constructs each pipeline in
  turn; if a constructor fails it returns that error and closes the pipelines already
  constructed; otherwise it splices input, pipeline 1, ..., pipeline n. With zero
  pipelines it returns the input. A constructor is a function of no argument that gives
  an error or a pipeline.
\<close>

fun wrap_each ::
    "input \<Rightarrow> pipeline list \<Rightarrow> (unit \<Rightarrow> error + pipeline) list \<Rightarrow> (error \<times> pipeline list) + input" where
  "wrap_each i built [] = Inr i"
| "wrap_each i built (ctor # ctors) =
     (case ctor () of
        Inl err \<Rightarrow> Inl (err, map Pipeline_CloseAsync built)
      | Inr p \<Rightarrow>
          (let p' = Pipeline_Consume p (Input_TransactionChan i)
           in wrap_each (WithPipeline i p') (built @ [p']) ctors))"

definition WrapWithPipelines ::
    "input \<Rightarrow> (unit \<Rightarrow> error + pipeline) list \<Rightarrow> (error \<times> pipeline list) + input" where
  "WrapWithPipelines i ctors = wrap_each i [] ctors"

section \<open>Function variables in text\<close>

text \<open>
  Package \<^verbatim>\<open>text\<close> (\<^verbatim>\<open>ContainsFunctionVariables\<close>, \<^verbatim>\<open>ReplaceFunctionVariables\<close>) is not
  among the source files; only its tests are. The definitions of this section follow
  section 4.5 of the specification: a reference is \<^verbatim>\<open>${!NAME}\<close> or \<^verbatim>\<open>${!NAME:ARG}\<close>, where
  \<^verbatim>\<open>NAME\<close> matches \<^verbatim>\<open>[a-z_]+\<close> and \<^verbatim>\<open>ARG\<close> matches \<^verbatim>\<open>[^}]+\<close>.
\<close>

text \<open>Modelled from the spec: the characters of a \<^verbatim>\<open>NAME\<close>, \<^verbatim>\<open>[a-z_]\<close>.\<close>

definition is_name_char :: "char \<Rightarrow> bool" where
  "is_name_char c = (c = CHR ''_'' \<or> (CHR ''a'' \<le> c \<and> c \<le> CHR ''z''))"

text \<open>
  Modelled from the spec: the opening \<^verbatim>\<open>${!\<close> of a reference; the result is the text
  behind it.
\<close>

fun strip_opening :: "string \<Rightarrow> string option" where
  "strip_opening (c1 # c2 # c3 # r) =
     (if c1 = CHR ''$'' \<and> c2 = CHR ''{'' \<and> c3 = CHR ''!'' then Some r else None)"
| "strip_opening _ = None"

text \<open>
  Modelled from the spec: behind the colon, a non-empty \<^verbatim>\<open>ARG\<close> of characters other than
  \<^verbatim>\<open>}\<close>, and the closing \<^verbatim>\<open>}\<close>.
\<close>

definition parse_arg :: "string \<Rightarrow> string \<Rightarrow> (string \<times> string option \<times> string) option" where
  "parse_arg name r =
     (let arg = takeWhile (\<lambda>c. c \<noteq> CHR ''}'') r in
      if arg = [] then None
      else (case dropWhile (\<lambda>c. c \<noteq> CHR ''}'') r of
              [] \<Rightarrow> None
            | e # rest \<Rightarrow> Some (name, Some arg, rest)))"

text \<open>
  Modelled from the spec: behind the opening, a non-empty \<^verbatim>\<open>NAME\<close>, followed by the
  closing \<^verbatim>\<open>}\<close> or by a colon and an argument.
\<close>

definition parse_name :: "string \<Rightarrow> (string \<times> string option \<times> string) option" where
  "parse_name r =
     (let name = takeWhile is_name_char r in
      if name = [] then None
      else (case dropWhile is_name_char r of
              [] \<Rightarrow> None
            | d # rest \<Rightarrow>
                if d = CHR ''}'' then Some (name, None, rest)
                else if d = CHR '':'' then parse_arg name rest
                else None))"

text \<open>
  Modelled from the spec: a well-formed reference at the head of the text; the result is
  its name, its argument if it has one, and the text behind the reference.
\<close>

definition parse_reference :: "string \<Rightarrow> (string \<times> string option \<times> string) option" where
  "parse_reference s = (case strip_opening s of None \<Rightarrow> None | Some r \<Rightarrow> parse_name r)"

text \<open>
  Modelled from the spec: the detector \<^verbatim>\<open>ContainsFunctionVariables\<close> looks for a well-formed
  reference starting at any position of the text.
\<close>

fun ContainsFunctionVariables :: "string \<Rightarrow> bool" where
  "ContainsFunctionVariables [] = False"
| "ContainsFunctionVariables (c # cs) =
     (parse_reference (c # cs) \<noteq> None \<or> ContainsFunctionVariables cs)"

text \<open>Modelled from the spec: the strings \<open>xs\<close> joined with the separator between them.\<close>

fun join :: "string \<Rightarrow> string list \<Rightarrow> string" where
  "join sep [] = []"
| "join sep [x] = x"
| "join sep (x # y # ys) = x @ sep @ join sep (y # ys)"

text \<open>
  Modelled from the spec: a JSON string literal. The specification asks for a JSON object
  and says nothing on escaping; the quotation mark, the backslash and the control
  characters are escaped, which JSON requires, and every other byte is kept.
\<close>

definition hex_digit :: "nat \<Rightarrow> char" where
  "hex_digit d = ''0123456789abcdef'' ! (d mod 16)"

definition json_escape :: "char \<Rightarrow> string" where
  "json_escape c =
     (if c = CHR 0x22 then [CHR 0x5C, CHR 0x22]
      else if c = CHR 0x5C then [CHR 0x5C, CHR 0x5C]
      else if (of_char c :: nat) < 32 then
        [CHR 0x5C, CHR ''u'', CHR ''0'', CHR ''0'', hex_digit (of_char c div 16), hex_digit (of_char c)]
      else [c])"

definition json_string :: "string \<Rightarrow> string" where
  "json_string s = [CHR 0x22] @ concat (map json_escape s) @ [CHR 0x22]"

text \<open>
  Modelled from the spec: \<^verbatim>\<open>${!metadata}\<close> without a key expands to a JSON object of all
  metadata, the keys sorted lexicographically.
\<close>

definition metadata_json :: "message \<Rightarrow> string" where
  "metadata_json m =
     ''{'' @ join '','' (map (\<lambda>(k, v). json_string k @ '':'' @ json_string v)
                         (sort_key fst (DAList.impl_of (msg_metadata m)))) @ ''}''"

text \<open>
  Modelled from the spec: the function \<^verbatim>\<open>metadata\<close>: with a key, the metadata value for
  that key, empty if absent; without, the JSON object of all metadata.
\<close>

definition metadata_function :: "message \<Rightarrow> string option \<Rightarrow> string" where
  "metadata_function m arg = (case arg of Some key \<Rightarrow> GetMetadata m key | None \<Rightarrow> metadata_json m)"

text \<open>Modelled from the spec: the decimal digits of a counter value.\<close>

function decimal :: "nat \<Rightarrow> string" where
  "decimal n =
     (if n < 10 then [''0123456789'' ! n] else decimal (n div 10) @ [''0123456789'' ! (n mod 10)])"
  by pat_completeness auto
termination
  by (relation "measure id") auto

text \<open>
  Modelled from the spec: what the functions \<^verbatim>\<open>hostname\<close>, \<^verbatim>\<open>timestamp_unix\<close>,
  \<^verbatim>\<open>timestamp_unix_nano\<close>, \<^verbatim>\<open>timestamp\<close> and \<^verbatim>\<open>json_field\<close> expand to depends on the
  host, the clock and a JSON parser; their expansions are parameters. The counters of
  \<^verbatim>\<open>count\<close> are state, one value per key, zero before the first expansion.
\<close>

record interp_env =
  env_hostname :: string
  env_timestamp_unix :: "string option \<Rightarrow> string"
  env_timestamp_unix_nano :: string
  env_timestamp :: string
  env_json_field :: "message \<Rightarrow> string \<Rightarrow> string"

type_synonym counters = "string \<Rightarrow> nat"

text \<open>
  Modelled from the spec: the table of recognised functions. The result is the expansion
  and the counters after it, or \<open>None\<close> for an unrecognised name.
\<close>

definition expand ::
    "interp_env \<Rightarrow> message \<Rightarrow> counters \<Rightarrow> string \<Rightarrow> string option \<Rightarrow> (string \<times> counters) option" where
  "expand env msg cnt name arg =
     (let a = (case arg of None \<Rightarrow> [] | Some x \<Rightarrow> x) in
      if name = ''hostname'' then Some (env_hostname env, cnt)
      else if name = ''timestamp_unix'' then Some (env_timestamp_unix env arg, cnt)
      else if name = ''timestamp_unix_nano'' then Some (env_timestamp_unix_nano env, cnt)
      else if name = ''timestamp'' then Some (env_timestamp env, cnt)
      else if name = ''echo'' then Some (a, cnt)
      else if name = ''count'' then Some (decimal (cnt a + 1), cnt(a := cnt a + 1))
      else if name = ''metadata'' then Some (metadata_function msg arg, cnt)
      else if name = ''json_field'' then Some (env_json_field env msg a, cnt)
      else None)"

text \<open>
  Modelled from the spec: the rewriter \<^verbatim>\<open>ReplaceFunctionVariables\<close> replaces every well-formed
  reference, from left to right, by its expansion; a reference with an unrecognised name
  is replaced by its own text, and every other character is literal.
\<close>

function ReplaceFunctionVariables ::
    "interp_env \<Rightarrow> message \<Rightarrow> counters \<Rightarrow> string \<Rightarrow> string \<times> counters" where
  "ReplaceFunctionVariables env msg cnt [] = ([], cnt)"
| "ReplaceFunctionVariables env msg cnt (c # cs) =
     (case parse_reference (c # cs) of
        None \<Rightarrow>
          (case ReplaceFunctionVariables env msg cnt cs of (out, cnt') \<Rightarrow> (c # out, cnt'))
      | Some (name, arg, rest) \<Rightarrow>
          (case expand env msg cnt name arg of
             None \<Rightarrow>
               (case ReplaceFunctionVariables env msg cnt rest of
                  (out, cnt') \<Rightarrow> (take (length (c # cs) - length rest) (c # cs) @ out, cnt'))
           | Some (text, cnt1) \<Rightarrow>
               (case ReplaceFunctionVariables env msg cnt1 rest of
                  (out, cnt') \<Rightarrow> (text @ out, cnt'))))"
  by pat_completeness auto
termination
proof -
  have drop: "length ys < length xs" if "dropWhile P xs = y # ys"
    for P and xs :: string and y ys
    using length_dropWhile_le[of P xs] that by simp
  have arg: "length rest < length r" if "parse_arg name r = Some (name', a, rest)"
    for name name' r a rest
    using that by (auto simp: parse_arg_def Let_def split: list.splits if_splits dest!: drop)
  have nm: "length rest < length r" if "parse_name r = Some (name, a, rest)"
    for name r a rest
    using that
    by (auto simp: parse_name_def Let_def split: list.splits if_splits dest!: drop arg)
  have strip: "length r < length s" if "strip_opening s = Some r" for s r
    using that by (cases s rule: strip_opening.cases) (auto split: if_splits)
  have shorter: "length rest < length s" if "parse_reference s = Some (name, a, rest)"
    for s name a rest
    using that by (auto simp: parse_reference_def split: option.splits dest!: strip nm)
  show ?thesis
    by (relation "measure (\<lambda>(env, msg, cnt, s). length s)") (auto dest: shorter)
qed

text \<open>
  An environment and counters for examples: a fixed host name and clock, no JSON fields,
  and every counter at zero.
\<close>

definition example_env :: interp_env where
  "example_env =
     \<lparr>env_hostname = ''localhost'', env_timestamp_unix = (\<lambda>_. ''0''),
      env_timestamp_unix_nano = ''0'', env_timestamp = ''Thu Jan 1 00:00:00 +0000 UTC 1970'',
      env_json_field = (\<lambda>_ _. ''null'')\<rparr>"

definition no_counts :: counters where
  "no_counts = (\<lambda>_. 0)"

section \<open>Properties of the Combine processor\<close>

subsection \<open>The three outcomes of one call\<close>

lemma append_parts_eq: "append_parts buf ps = buf @ ps"
  by (induction ps arbitrary: buf) auto

lemma alist_update_fresh:
  "k \<notin> fst ` set al \<Longrightarrow> AList.update k v al = al @ [(k, v)]"
  by (induction al) auto

lemma iter_entries_SetMetadata:
  "distinct (map fst (DAList.impl_of (msg_metadata m) @ kvs)) \<Longrightarrow>
   iter_entries kvs SetMetadata m =
     m\<lparr>msg_metadata := DAList.Alist (DAList.impl_of (msg_metadata m) @ kvs)\<rparr>"
proof (induction kvs arbitrary: m)
  case Nil
  then show ?case by (simp add: DAList.Alist_impl_of)
next
  case (Cons kv kvs)
  obtain k v where kv: "kv = (k, v)" by (cases kv)
  have fresh: "k \<notin> fst ` set (DAList.impl_of (msg_metadata m))"
    using Cons.prems kv by auto
  have step: "DAList.impl_of (msg_metadata (SetMetadata k v m)) = DAList.impl_of (msg_metadata m) @ [(k, v)]"
    using fresh by (simp add: SetMetadata_def update.rep_eq alist_update_fresh)
  show ?case using Cons.prems Cons.IH[of "SetMetadata k v m"] step kv
    by (simp add: SetMetadata_def)
qed

lemma copy_metadata:
  "IterMetadata msg SetMetadata (message_New buf) = \<lparr>msg_parts = buf, msg_metadata = msg_metadata msg\<rparr>"
  using iter_entries_SetMetadata[of "message_New buf" "DAList.impl_of (msg_metadata msg)"]
  by (simp add: IterMetadata_def message_New_def empty.rep_eq DAList.Alist_impl_of)

lemma Combine_oversize:
  "int (length (msg_parts msg)) > combine_n c \<Longrightarrow>
   Combine_ProcessMessage c msg =
     (c\<lparr>combine_stats := Incr ''processor.combine.parts.sent'' (Len msg)
                              (Incr ''processor.combine.sent'' 1
                                (Incr ''processor.combine.warning.too_many_parts'' 1 
                                 (Incr ''processor.combine.count'' 1 (combine_stats c))))\<rparr>, [msg], None)"
  by (simp add: Combine_ProcessMessage_def Len_def Let_def)

lemma Combine_batch:
  "\<not> int (length (msg_parts msg)) > combine_n c \<Longrightarrow>
   int (length (combine_parts c @ msg_parts msg)) \<ge> combine_n c \<Longrightarrow>
   Combine_ProcessMessage c msg =
     (c\<lparr>combine_parts := [],
        combine_stats := Incr ''processor.combine.parts.sent'' (int (length (combine_parts c @ msg_parts msg)))
                                      (Incr ''processor.combine.sent'' 1 (Incr ''processor.combine.count'' 1 (combine_stats c)))\<rparr>,
      [\<lparr>msg_parts = combine_parts c @ msg_parts msg, msg_metadata = msg_metadata msg\<rparr>], None)"
  by (simp add: Combine_ProcessMessage_def Len_def Let_def GetAll_def append_parts_eq copy_metadata)

lemma Combine_pending:
  "\<not> int (length (msg_parts msg)) > combine_n c \<Longrightarrow>
   int (length (combine_parts c @ msg_parts msg)) < combine_n c \<Longrightarrow>
   Combine_ProcessMessage c msg =
     (c\<lparr>combine_parts := combine_parts c @ msg_parts msg,
        combine_stats := Incr ''processor.combine.dropped'' 1 (Incr ''processor.combine.count'' 1 (combine_stats c))\<rparr>,
      [], Some SkipAck)"
  by (simp add: Combine_ProcessMessage_def Len_def Let_def GetAll_def append_parts_eq NewUnack_def)

text \<open>
  Claim C3. For a Combine processor with threshold \<open>n\<close> and an input message \<open>msg\<close>:
  if \<open>msg\<close> has more than \<open>n\<close> parts the call returns \<open>[msg]\<close> unchanged and no response;
  otherwise all parts of \<open>msg\<close> are appended to the buffer, and if the buffer then holds
  at least \<open>n\<close> parts the call returns exactly one message whose parts are the whole
  buffer in order (with the metadata of \<open>msg\<close>), clears the buffer and gives no response;
  otherwise it returns no message and the SkipAck response, the buffer keeping the
  appended parts.
\<close>

theorem combine_process_message_contract:
  "(int (length (msg_parts msg)) > combine_n c \<longrightarrow>
      fst (snd (Combine_ProcessMessage c msg)) = [msg] \<and>
      snd (snd (Combine_ProcessMessage c msg)) = None) \<and>
   (\<not> int (length (msg_parts msg)) > combine_n c \<and>
    int (length (combine_parts c @ msg_parts msg)) \<ge> combine_n c \<longrightarrow>
      fst (snd (Combine_ProcessMessage c msg)) =
        [\<lparr>msg_parts = combine_parts c @ msg_parts msg, msg_metadata = msg_metadata msg\<rparr>] \<and>
      snd (snd (Combine_ProcessMessage c msg)) = None \<and>
      combine_parts (fst (Combine_ProcessMessage c msg)) = []) \<and>
   (\<not> int (length (msg_parts msg)) > combine_n c \<and>
    int (length (combine_parts c @ msg_parts msg)) < combine_n c \<longrightarrow>
      fst (snd (Combine_ProcessMessage c msg)) = [] \<and>
      snd (snd (Combine_ProcessMessage c msg)) = Some SkipAck \<and>
      combine_parts (fst (Combine_ProcessMessage c msg)) = combine_parts c @ msg_parts msg)"
  using Combine_oversize[where msg=msg and c=c] Combine_batch[where msg=msg and c=c] Combine_pending[where msg=msg and c=c]
  by auto

theorem combine_process_message_contract_witness:
  "fst (snd (Combine_ProcessMessage \<lparr>combine_n = 2, combine_parts = [''p''], combine_stats = DudType\<rparr>
       (message_New [''x'', ''y'', ''z'']))) = [message_New [''x'', ''y'', ''z'']] \<and>
   fst (snd (Combine_ProcessMessage \<lparr>combine_n = 2, combine_parts = [''p''], combine_stats = DudType\<rparr>
       (message_New [''q'']))) = [message_New [''p'', ''q'']] \<and>
   combine_parts (fst (Combine_ProcessMessage \<lparr>combine_n = 2, combine_parts = [''p''], combine_stats = DudType\<rparr>
       (message_New [''q'']))) = [] \<and>
   snd (snd (Combine_ProcessMessage \<lparr>combine_n = 3, combine_parts = [''p''], combine_stats = DudType\<rparr>
       (message_New [''q'']))) = Some SkipAck \<and>
   combine_parts (fst (Combine_ProcessMessage \<lparr>combine_n = 3, combine_parts = [''p''], combine_stats = DudType\<rparr>
       (message_New [''q'']))) = [''p'', ''q'']"
  using combine_process_message_contract
          [where msg="message_New [''x'', ''y'', ''z'']" and c="\<lparr>combine_n = 2, combine_parts = [''p''], combine_stats = DudType\<rparr>"]
        combine_process_message_contract
          [where msg="message_New [''q'']" and c="\<lparr>combine_n = 2, combine_parts = [''p''], combine_stats = DudType\<rparr>"]
        combine_process_message_contract
          [where msg="message_New [''q'']" and c="\<lparr>combine_n = 3, combine_parts = [''p''], combine_stats = DudType\<rparr>"]
  by (simp add: message_New_def)

text \<open>
  Claim C10. When the message has more parts than the threshold (the oversize
  pass-through), the call leaves the buffer of pending parts exactly as it was, and the
  only message emitted is the input itself: no buffered part is consumed, reordered or
  flushed.
\<close>

theorem combine_oversize_keeps_buffer:
  "int (length (msg_parts msg)) > combine_n c \<Longrightarrow>
   combine_parts (fst (Combine_ProcessMessage c msg)) = combine_parts c \<and>
   fst (snd (Combine_ProcessMessage c msg)) = [msg]"
  by (simp add: Combine_oversize)

theorem combine_oversize_keeps_buffer_witness:
  "int (length (msg_parts (message_New [''x'', ''y'', ''z'']))) > 2 \<and>
   combine_parts (fst (Combine_ProcessMessage
       \<lparr>combine_n = 2, combine_parts = [''p''], combine_stats = DudType\<rparr>
       (message_New [''x'', ''y'', ''z'']))) = [''p'']"
  using combine_oversize_keeps_buffer
          [where msg="message_New [''x'', ''y'', ''z'']" and c="\<lparr>combine_n = 2, combine_parts = [''p''], combine_stats = DudType\<rparr>"]
  by (simp add: message_New_def)


subsection \<open>Construction\<close>

text \<open>
  Claim C7, as amended. \<^verbatim>\<open>NewCombine\<close> does not validate the \<open>parts\<close> field: for every
  configuration, also one with \<open>parts < 1\<close>, it returns no error and creates the
  processor, with the threshold equal to \<open>parts\<close> and an empty buffer.
\<close>

theorem new_combine_never_fails:
  "NewCombine conf st = Inr \<lparr>combine_n = Parts conf, combine_parts = [], combine_stats = st\<rparr>"
  by (simp add: NewCombine_def)

text \<open>
  The claim as stated fails: for \<open>parts = 0\<close> the constructor returns a processor and no
  error.
\<close>

theorem new_combine_out_of_range_counterexample:
  "NewCombine \<lparr>Parts = 0\<rparr> DudType = Inr \<lparr>combine_n = 0, combine_parts = [], combine_stats = DudType\<rparr>"
  by (simp add: NewCombine_def)

subsection \<open>Sequences of calls\<close>

lemma Combine_run_Cons:
  "Combine_run c (msg # rest) =
     (fst (Combine_run (fst (Combine_ProcessMessage c msg)) rest),
      snd (Combine_ProcessMessage c msg) # snd (Combine_run (fst (Combine_ProcessMessage c msg)) rest))"
  by (simp split: prod.splits)

lemma Combine_n_step: "combine_n (fst (Combine_ProcessMessage c msg)) = combine_n c"
  by (simp add: Combine_ProcessMessage_def Let_def)

lemma Combine_n_run: "combine_n (fst (Combine_run c ms)) = combine_n c"
  by (induction ms arbitrary: c) (simp_all add: Combine_run_Cons Combine_n_step del: Combine_run.simps(2))

lemma Combine_step_cases:
  fixes msg :: message and c :: Combine
  obtains (oversize) "int (length (msg_parts msg)) > combine_n c"
  | (batch) "\<not> int (length (msg_parts msg)) > combine_n c" "int (length (combine_parts c @ msg_parts msg)) \<ge> combine_n c"
  | (pending) "\<not> int (length (msg_parts msg)) > combine_n c" "int (length (combine_parts c @ msg_parts msg)) < combine_n c"
  by linarith

lemma Combine_step_accounting:
  assumes "int (length (msg_parts msg)) \<le> combine_n c"
  shows "concat (map msg_parts (fst (snd (Combine_ProcessMessage c msg)))) @
           combine_parts (fst (Combine_ProcessMessage c msg)) = combine_parts c @ msg_parts msg"
proof (cases rule: Combine_step_cases[where msg=msg and c=c])
  case oversize
  with assms show ?thesis by simp
next
  case batch
  then show ?thesis by (simp add: Combine_batch)
next
  case pending
  then show ?thesis by (simp add: Combine_pending)
qed

lemma Combine_step_sizes:
  assumes "int (length (msg_parts msg)) \<le> combine_n c" "int (length (combine_parts c)) < combine_n c"
  shows "(\<forall>out\<in>set (fst (snd (Combine_ProcessMessage c msg))).
            combine_n c \<le> int (length (msg_parts out)) \<and> int (length (msg_parts out)) \<le> 2 * combine_n c - 1)"
proof (cases rule: Combine_step_cases[where msg=msg and c=c])
  case oversize
  with assms show ?thesis by simp
next
  case batch
  then show ?thesis using assms by (simp add: Combine_batch)
next
  case pending
  then show ?thesis by (simp add: Combine_pending)
qed

lemma Combine_step_invariant:
  assumes "1 \<le> combine_n c" "int (length (combine_parts c)) < combine_n c"
  shows "int (length (combine_parts (fst (Combine_ProcessMessage c msg)))) < combine_n c"
proof (cases rule: Combine_step_cases[where msg=msg and c=c])
  case oversize
  with assms show ?thesis by (simp add: Combine_oversize)
next
  case batch
  then show ?thesis using assms by (simp add: Combine_batch)
next
  case pending
  then show ?thesis by (simp add: Combine_pending)
qed

lemma Combine_run_invariant:
  "1 \<le> combine_n c \<Longrightarrow> int (length (combine_parts c)) < combine_n c \<Longrightarrow>
   int (length (combine_parts (fst (Combine_run c ms)))) < combine_n c"
proof (induction ms arbitrary: c)
  case Nil
  then show ?case by simp
next
  case (Cons msg rest)
  have "int (length (combine_parts (fst (Combine_run (fst (Combine_ProcessMessage c msg)) rest))))
          < combine_n (fst (Combine_ProcessMessage c msg))"
    using Cons.prems by (intro Cons.IH) (simp_all add: Combine_n_step Combine_step_invariant)
  then show ?case by (simp add: Combine_run_Cons Combine_n_step del: Combine_run.simps(2))
qed

lemma Combine_run_accounting:
  "\<forall>m\<in>set ms. int (length (msg_parts m)) \<le> combine_n c \<Longrightarrow>
   all_parts (emitted (snd (Combine_run c ms))) @ combine_parts (fst (Combine_run c ms)) =
     combine_parts c @ all_parts ms"
proof (induction ms arbitrary: c)
  case Nil
  then show ?case by (simp add: all_parts_def emitted_def)
next
  case (Cons msg rest)
  let ?c' = "fst (Combine_ProcessMessage c msg)"
  have ih: "all_parts (emitted (snd (Combine_run ?c' rest))) @ combine_parts (fst (Combine_run ?c' rest)) =
              combine_parts ?c' @ all_parts rest"
    using Cons.prems by (intro Cons.IH) (simp add: Combine_n_step)
  have step: "concat (map msg_parts (fst (snd (Combine_ProcessMessage c msg)))) @ combine_parts ?c' =
                combine_parts c @ msg_parts msg"
    using Cons.prems by (intro Combine_step_accounting) simp
  have "all_parts (emitted (snd (Combine_run c (msg # rest)))) @ combine_parts (fst (Combine_run c (msg # rest))) =
          concat (map msg_parts (fst (snd (Combine_ProcessMessage c msg)))) @
            (all_parts (emitted (snd (Combine_run ?c' rest))) @ combine_parts (fst (Combine_run ?c' rest)))"
    by (simp add: Combine_run_Cons all_parts_def emitted_def del: Combine_run.simps(2))
  also have "\<dots> = (concat (map msg_parts (fst (snd (Combine_ProcessMessage c msg)))) @ combine_parts ?c') @ all_parts rest"
    by (simp add: ih)
  also have "\<dots> = combine_parts c @ all_parts (msg # rest)"
    by (simp add: step all_parts_def)
  finally show ?case .
qed

lemma Combine_run_sizes:
  "1 \<le> combine_n c \<Longrightarrow> int (length (combine_parts c)) < combine_n c \<Longrightarrow>
   \<forall>m\<in>set ms. int (length (msg_parts m)) \<le> combine_n c \<Longrightarrow>
   \<forall>out\<in>set (emitted (snd (Combine_run c ms))).
      combine_n c \<le> int (length (msg_parts out)) \<and> int (length (msg_parts out)) \<le> 2 * combine_n c - 1"
proof (induction ms arbitrary: c)
  case Nil
  then show ?case by (simp add: emitted_def)
next
  case (Cons msg rest)
  let ?c' = "fst (Combine_ProcessMessage c msg)"
  have ih: "\<forall>out\<in>set (emitted (snd (Combine_run ?c' rest))).
      combine_n ?c' \<le> int (length (msg_parts out)) \<and> int (length (msg_parts out)) \<le> 2 * combine_n ?c' - 1"
    using Cons.prems by (intro Cons.IH) (simp_all add: Combine_n_step Combine_step_invariant)
  have step: "\<forall>out\<in>set (fst (snd (Combine_ProcessMessage c msg))).
            combine_n c \<le> int (length (msg_parts out)) \<and> int (length (msg_parts out)) \<le> 2 * combine_n c - 1"
    using Cons.prems by (intro Combine_step_sizes) simp_all
  show ?case using ih step 
    by (auto simp add: Combine_run_Cons emitted_def Combine_n_step simp del: Combine_run.simps(2))
qed

text \<open>
  Claim C1, as amended. For a Combine processor built with \<open>parts = P\<close>, \<open>P \<ge> 1\<close>, and
  every sequence of input messages with at most \<open>P\<close> parts each: the parts of the emitted
  messages followed by the parts left in the buffer are the parts of the inputs, in
  order, so the multiset of the output parts and of the parts still buffered equals the
  multiset of the input parts; every emitted message has at least \<open>P\<close> and at most
  \<open>2 * P - 1\<close> parts; fewer than \<open>P\<close> parts stay in the buffer, and no call emits them.
\<close>

theorem combine_batch_accounting:
  assumes "NewCombine conf st = Inr c" and "1 \<le> Parts conf"
    and "\<forall>m\<in>set ms. int (length (msg_parts m)) \<le> Parts conf"
  shows "all_parts (emitted (snd (Combine_run c ms))) @ combine_parts (fst (Combine_run c ms)) = all_parts ms \<and>
         mset (all_parts (emitted (snd (Combine_run c ms)))) + mset (combine_parts (fst (Combine_run c ms))) =
           mset (all_parts ms) \<and>
         (\<forall>out\<in>set (emitted (snd (Combine_run c ms))).
            Parts conf \<le> int (length (msg_parts out)) \<and> int (length (msg_parts out)) \<le> 2 * Parts conf - 1) \<and>
         int (length (combine_parts (fst (Combine_run c ms)))) < Parts conf"
proof -
  have c: "combine_n c = Parts conf" "combine_parts c = []"
    using assms(1) by (auto simp: NewCombine_def)
  have acc: "all_parts (emitted (snd (Combine_run c ms))) @ combine_parts (fst (Combine_run c ms)) = all_parts ms"
    using Combine_run_accounting[of ms c] assms(3) c by simp
  have "mset (all_parts (emitted (snd (Combine_run c ms))) @ combine_parts (fst (Combine_run c ms))) = mset (all_parts ms)"
    by (simp only: acc)
  then have macc: "mset (all_parts (emitted (snd (Combine_run c ms)))) + mset (combine_parts (fst (Combine_run c ms))) =
           mset (all_parts ms)" by simp
  have sz: "\<forall>out\<in>set (emitted (snd (Combine_run c ms))).
            Parts conf \<le> int (length (msg_parts out)) \<and> int (length (msg_parts out)) \<le> 2 * Parts conf - 1"
    using Combine_run_sizes[of c ms] assms(2,3) c by simp
  have inv: "int (length (combine_parts (fst (Combine_run c ms)))) < Parts conf"
    using Combine_run_invariant[of c ms] assms(2) c by simp
  show ?thesis using acc macc sz inv by blast
qed

theorem combine_batch_accounting_witness:
  "NewCombine \<lparr>Parts = 2\<rparr> DudType = Inr \<lparr>combine_n = 2, combine_parts = [], combine_stats = DudType\<rparr> \<and>
   all_parts (emitted (snd (Combine_run \<lparr>combine_n = 2, combine_parts = [], combine_stats = DudType\<rparr>
      [message_New [''a''], message_New [''b''], message_New [''c'']]))) = [''a'', ''b''] \<and>
   combine_parts (fst (Combine_run \<lparr>combine_n = 2, combine_parts = [], combine_stats = DudType\<rparr>
      [message_New [''a''], message_New [''b''], message_New [''c'']])) = [''c'']"
  using combine_batch_accounting
          [where conf = "\<lparr>Parts = 2\<rparr>" and st = DudType
             and c = "\<lparr>combine_n = 2, combine_parts = [], combine_stats = DudType\<rparr>"
             and ms = "[message_New [''a''], message_New [''b''], message_New [''c'']]"]
  by (simp add: NewCombine_def Combine_batch Combine_pending emitted_def all_parts_def message_New_def)

text \<open>
  The claim as stated fails for \<open>P = 4\<close> and inputs of 2, 3, 2, 3 and 1 parts: both
  emitted messages have 5 parts, and the last input part stays in the buffer, so the
  output parts are not all the input parts.
\<close>

theorem combine_batch_accounting_counterexample:
  "map Len [message_New [''a'', ''b''], message_New [''c'', ''d'', ''e''],
            message_New [''f'', ''g''], message_New [''h'', ''i'', ''j''], message_New [''k'']] = [2, 3, 2, 3, 1] \<and>
   map Len (emitted (snd (Combine_run \<lparr>combine_n = 4, combine_parts = [], combine_stats = DudType\<rparr>
      [message_New [''a'', ''b''], message_New [''c'', ''d'', ''e''],
       message_New [''f'', ''g''], message_New [''h'', ''i'', ''j''], message_New [''k'']]))) = [5, 5] \<and>
   mset (all_parts (emitted (snd (Combine_run \<lparr>combine_n = 4, combine_parts = [], combine_stats = DudType\<rparr>
      [message_New [''a'', ''b''], message_New [''c'', ''d'', ''e''],
       message_New [''f'', ''g''], message_New [''h'', ''i'', ''j''], message_New [''k'']])))) \<noteq>
   mset (all_parts [message_New [''a'', ''b''], message_New [''c'', ''d'', ''e''],
       message_New [''f'', ''g''], message_New [''h'', ''i'', ''j''], message_New [''k'']])"
  by (simp add: Combine_batch Combine_pending Combine_oversize emitted_def all_parts_def message_New_def Len_def)

lemma Combine_run_nth:
  "i < length ms \<Longrightarrow>
   snd (Combine_run c ms) ! i =
     snd (Combine_ProcessMessage (fst (Combine_run c (take i ms))) (ms ! i))"
proof (induction ms arbitrary: c i)
  case Nil
  then show ?case by simp
next
  case (Cons msg rest)
  show ?case
  proof (cases i)
    case 0
    then show ?thesis by (simp add: Combine_run_Cons del: Combine_run.simps(2))
  next
    case (Suc j)
    with Cons.prems have "j < length rest" by simp
    from Cons.IH[OF this] Suc show ?thesis
      by (simp add: Combine_run_Cons del: Combine_run.simps(2))
  qed
qed

text \<open>
  Claim C4. Whenever a call of a Combine processor emits a batch (the message is not
  passed through as oversize and the call emits), the emitted message carries exactly the
  metadata of the input message of that call; its parts are the buffered parts followed
  by the parts of that input, and for a threshold of at least 1 that input has at least
  one part: it is the last input that contributed parts to the batch.
\<close>

theorem combine_batch_metadata:
  assumes "NewCombine conf st = Inr c" and "i < length ms"
    and "\<not> int (length (msg_parts (ms ! i))) > Parts conf"
    and "fst (snd (Combine_run c ms) ! i) \<noteq> []"
  shows "fst (snd (Combine_run c ms) ! i) =
           [\<lparr>msg_parts = combine_parts (fst (Combine_run c (take i ms))) @ msg_parts (ms ! i),
             msg_metadata = msg_metadata (ms ! i)\<rparr>] \<and>
         (1 \<le> Parts conf \<longrightarrow> msg_parts (ms ! i) \<noteq> [])"
proof -
  let ?c = "fst (Combine_run c (take i ms))"
  let ?m = "ms ! i"
  have c: "combine_n c = Parts conf" "combine_parts c = []"
    using assms(1) by (auto simp: NewCombine_def)
  have n: "combine_n ?c = Parts conf"
    by (simp add: Combine_n_run c)
  have nth: "snd (Combine_run c ms) ! i = snd (Combine_ProcessMessage ?c ?m)"
    using assms(2) by (rule Combine_run_nth)
  have small: "\<not> int (length (msg_parts ?m)) > combine_n ?c"
    using assms(3) n by simp
  have full: "int (length (combine_parts ?c @ msg_parts ?m)) \<ge> combine_n ?c"
  proof (rule ccontr)
    assume "\<not> combine_n ?c \<le> int (length (combine_parts ?c @ msg_parts ?m))"
    then have "int (length (combine_parts ?c @ msg_parts ?m)) < combine_n ?c" by simp
    from Combine_pending[OF small this] nth assms(4) show False by simp
  qed
  have out: "fst (snd (Combine_run c ms) ! i) =
           [\<lparr>msg_parts = combine_parts ?c @ msg_parts ?m, msg_metadata = msg_metadata ?m\<rparr>]"
    using Combine_batch[OF small full] nth by simp
  have "msg_parts ?m \<noteq> []" if "1 \<le> Parts conf"
  proof -
    have "int (length (combine_parts ?c)) < combine_n c"
      using that c by (intro Combine_run_invariant) simp_all
    with full n c show ?thesis by auto
  qed
  with out show ?thesis by blast
qed

theorem combine_batch_metadata_witness:
  "fst (snd (Combine_run \<lparr>combine_n = 2, combine_parts = [], combine_stats = DudType\<rparr>
        [\<lparr>msg_parts = [''a''], msg_metadata = DAList.update ''k'' ''one'' DAList.empty\<rparr>,
         \<lparr>msg_parts = [''b''], msg_metadata = DAList.update ''k'' ''two'' DAList.empty\<rparr>]) ! Suc 0) =
     [\<lparr>msg_parts = [''a'', ''b''], msg_metadata = DAList.update ''k'' ''two'' DAList.empty\<rparr>]"
  using combine_batch_metadata
          [where conf = "\<lparr>Parts = 2\<rparr>" and st = DudType
             and c = "\<lparr>combine_n = 2, combine_parts = [], combine_stats = DudType\<rparr>"
             and i = "Suc 0"
             and ms = "[\<lparr>msg_parts = [''a''], msg_metadata = DAList.update ''k'' ''one'' DAList.empty\<rparr>,
                        \<lparr>msg_parts = [''b''], msg_metadata = DAList.update ''k'' ''two'' DAList.empty\<rparr>]"]
  by (simp add: NewCombine_def Combine_batch Combine_pending)

section \<open>Properties of the BoundsCheck processor\<close>

lemma part_size_reject_None:
  "part_size_reject conf ps = None \<longleftrightarrow>
     (\<forall>p\<in>set ps. MinPartSize conf \<le> int (length p) \<and> int (length p) \<le> MaxPartSize conf)"
  by (induction ps) (auto simp: Let_def)

lemma BoundsCheck_outputs:
  "fst (snd (BoundsCheck_ProcessMessage m msg)) =
     (if MinParts (bc_conf m) \<le> int (length (msg_parts msg)) \<and>
         int (length (msg_parts msg)) \<le> MaxParts (bc_conf m) \<and>
         part_size_reject (bc_conf m) (msg_parts msg) = None
      then [msg] else [])"
  by (auto simp: BoundsCheck_ProcessMessage_def Let_def Len_def GetAll_def split: option.splits)

lemma BoundsCheck_response:
  "snd (snd (BoundsCheck_ProcessMessage m msg)) =
     (if MinParts (bc_conf m) \<le> int (length (msg_parts msg)) \<and>
         int (length (msg_parts msg)) \<le> MaxParts (bc_conf m) \<and>
         part_size_reject (bc_conf m) (msg_parts msg) = None
      then None else Some Ack)"
  by (auto simp: BoundsCheck_ProcessMessage_def Let_def Len_def GetAll_def NewAck_def split: option.splits)

text \<open>
  Claim C2. \<^verbatim>\<open>BoundsCheck.ProcessMessage\<close> emits \<open>[msg]\<close>, unchanged, if and only if the
  number of parts lies between \<open>min_parts\<close> and \<open>max_parts\<close> and the size of every part lies
  between \<open>min_part_size\<close> and \<open>max_part_size\<close>, and then it gives no response; in every
  other case it emits no message and responds Ack; it never responds with an error.
\<close>

theorem bounds_check_contract:
  "(fst (snd (BoundsCheck_ProcessMessage m msg)) = [msg] \<longleftrightarrow>
      MinParts (bc_conf m) \<le> int (length (msg_parts msg)) \<and>
      int (length (msg_parts msg)) \<le> MaxParts (bc_conf m) \<and>
      (\<forall>p\<in>set (msg_parts msg).
         MinPartSize (bc_conf m) \<le> int (length p) \<and> int (length p) \<le> MaxPartSize (bc_conf m))) \<and>
   (fst (snd (BoundsCheck_ProcessMessage m msg)) = [msg] \<longrightarrow>
      snd (snd (BoundsCheck_ProcessMessage m msg)) = None) \<and>
   (fst (snd (BoundsCheck_ProcessMessage m msg)) \<noteq> [msg] \<longrightarrow>
      fst (snd (BoundsCheck_ProcessMessage m msg)) = [] \<and>
      snd (snd (BoundsCheck_ProcessMessage m msg)) = Some Ack) \<and>
   (\<forall>e. snd (snd (BoundsCheck_ProcessMessage m msg)) \<noteq> Some (Error e))"
  by (simp add: BoundsCheck_outputs BoundsCheck_response part_size_reject_None)

theorem bounds_check_contract_witness:
  "fst (snd (BoundsCheck_ProcessMessage \<lparr>bc_conf = NewBoundsCheckConfig, bc_stats = DudType\<rparr>
             (message_New [''foo'', ''bar'']))) = [message_New [''foo'', ''bar'']] \<and>
   snd (snd (BoundsCheck_ProcessMessage \<lparr>bc_conf = NewBoundsCheckConfig, bc_stats = DudType\<rparr>
             (message_New [''foo'', ''bar'']))) = None \<and>
   fst (snd (BoundsCheck_ProcessMessage \<lparr>bc_conf = NewBoundsCheckConfig, bc_stats = DudType\<rparr>
             (message_New [''foo'', '''']))) = [] \<and>
   snd (snd (BoundsCheck_ProcessMessage \<lparr>bc_conf = NewBoundsCheckConfig, bc_stats = DudType\<rparr>
             (message_New [''foo'', '''']))) = Some Ack"
  using bounds_check_contract
          [where m = "\<lparr>bc_conf = NewBoundsCheckConfig, bc_stats = DudType\<rparr>"
             and msg = "message_New [''foo'', ''bar'']"]
        bounds_check_contract
          [where m = "\<lparr>bc_conf = NewBoundsCheckConfig, bc_stats = DudType\<rparr>"
             and msg = "message_New [''foo'', '''']"]
  by (simp add: NewBoundsCheckConfig_def message_New_def)

text \<open>Scenario S3 of the specification: three parts against \<open>max_parts = 2\<close>.\<close>

lemma bounds_check_S3:
  "fst (snd (BoundsCheck_ProcessMessage
        \<lparr>bc_conf = NewBoundsCheckConfig\<lparr>MaxParts := 2\<rparr>, bc_stats = DudType\<rparr>
        (message_New [''a'', ''b'', ''c'']))) = []"
  "snd (snd (BoundsCheck_ProcessMessage
        \<lparr>bc_conf = NewBoundsCheckConfig\<lparr>MaxParts := 2\<rparr>, bc_stats = DudType\<rparr>
        (message_New [''a'', ''b'', ''c'']))) = Some Ack"
  "bc_stats (fst (BoundsCheck_ProcessMessage
        \<lparr>bc_conf = NewBoundsCheckConfig\<lparr>MaxParts := 2\<rparr>, bc_stats = DudType\<rparr>
        (message_New [''a'', ''b'', ''c'']))) ''processor.bounds_check.dropped_num_parts'' = 1"
  by (simp_all add: BoundsCheck_ProcessMessage_def NewBoundsCheckConfig_def message_New_def
        Len_def Let_def Incr_def DudType_def NewAck_def)

section \<open>Properties of the Nanomsg output\<close>

lemma NewNanomsg_transactions: "NewNanomsg cf env = Inr s \<Longrightarrow> transactions s = None"
  by (auto simp: NewNanomsg_def Let_def split: sum.splits option.splits if_splits)

lemma Nanomsg_step_assigned:
  "transactions s = Some ts \<Longrightarrow> transactions (fst (Nanomsg_step s ev)) = Some ts"
  by (cases ev) (simp_all add: Consume_def CloseAsync_def loop_exit_def)

lemma Nanomsg_step_refused:
  "transactions s = Some ts \<Longrightarrow> snd (Nanomsg_step s (CallConsume ts')) = Some ErrAlreadyStarted"
  by (simp add: Consume_def)

lemma Nanomsg_run_Cons:
  "Nanomsg_run s (ev # evs) =
     (fst (Nanomsg_run (fst (Nanomsg_step s ev)) evs),
      snd (Nanomsg_step s ev) # snd (Nanomsg_run (fst (Nanomsg_step s ev)) evs))"
  by (simp split: prod.splits)

lemma Nanomsg_run_assigned:
  "transactions s = Some ts \<Longrightarrow>
   transactions (fst (Nanomsg_run s evs)) = Some ts \<and>
   (\<forall>i<length evs. \<forall>ts'. evs ! i = CallConsume ts' \<longrightarrow>
        snd (Nanomsg_run s evs) ! i = Some ErrAlreadyStarted)"
proof (induction evs arbitrary: s)
  case Nil
  then show ?case by simp
next
  case (Cons ev evs)
  let ?s' = "fst (Nanomsg_step s ev)"
  have keep: "transactions ?s' = Some ts"
    using Cons.prems by (rule Nanomsg_step_assigned)
  note ih = Cons.IH[OF keep]
  have "snd (Nanomsg_run s (ev # evs)) ! i = Some ErrAlreadyStarted"
    if "i < length (ev # evs)" "(ev # evs) ! i = CallConsume ts'" for i ts'
  proof (cases i)
    case 0
    with that Cons.prems show ?thesis
      by (simp add: Nanomsg_run_Cons Consume_def del: Nanomsg_run.simps(2))
  next
    case (Suc j)
    with that ih show ?thesis
      by (simp add: Nanomsg_run_Cons del: Nanomsg_run.simps(2))
  qed
  with ih show ?case
    by (simp add: Nanomsg_run_Cons del: Nanomsg_run.simps(2))
qed

text \<open>
  Claim C9. On a Nanomsg output as \<^verbatim>\<open>NewNanomsg\<close> returns it, the first call of \<^verbatim>\<open>Consume\<close>
  with a transaction channel returns no error and assigns the channel; whatever happens
  afterwards (further calls of \<^verbatim>\<open>Consume\<close>, \<^verbatim>\<open>CloseAsync\<close>, the loop returning), every later
  call of \<^verbatim>\<open>Consume\<close> returns \<^verbatim>\<open>ErrAlreadyStarted\<close> and the assigned channel stays the
  one of the first call.
\<close>

theorem nanomsg_consume_once:
  assumes "NewNanomsg cf env = Inr s"
  shows "snd (Consume s (Some ts)) = None \<and>
         transactions (fst (Consume s (Some ts))) = Some ts \<and>
         transactions (fst (Nanomsg_run (fst (Consume s (Some ts))) evs)) = Some ts \<and>
         (\<forall>i<length evs. \<forall>ts'. evs ! i = CallConsume ts' \<longrightarrow>
            snd (Nanomsg_run (fst (Consume s (Some ts))) evs) ! i = Some ErrAlreadyStarted)"
proof -
  have fresh: "transactions s = None"
    using assms by (rule NewNanomsg_transactions)
  then have first: "snd (Consume s (Some ts)) = None"
    and assigned: "transactions (fst (Consume s (Some ts))) = Some ts"
    by (simp_all add: Consume_def)
  from Nanomsg_run_assigned[OF assigned, of evs] first assigned show ?thesis by simp
qed

theorem nanomsg_consume_once_witness:
  "NewNanomsg NewNanomsgConfig no_failures =
     Inr \<lparr>running = 1, urls = [''tcp://localhost:5556''], nm_conf = NewNanomsgConfig, socket = PushSocket,
          transactions = None, closedChan_closed = False, closeChan_closed = False, started = 0\<rparr> \<and>
   snd (Nanomsg_run (fst (Consume
          \<lparr>running = 1, urls = [''tcp://localhost:5556''], nm_conf = NewNanomsgConfig, socket = PushSocket,
           transactions = None, closedChan_closed = False, closeChan_closed = False, started = 0\<rparr> (Some 7)))
        [CallConsume (Some 8), CallCloseAsync, LoopReturns, CallConsume (Some 7)]) ! 3 = Some ErrAlreadyStarted"
  using nanomsg_consume_once
          [where cf = NewNanomsgConfig and env = no_failures and ts = 7
             and s = "\<lparr>running = 1, urls = [''tcp://localhost:5556''], nm_conf = NewNanomsgConfig, socket = PushSocket,
                        transactions = None, closedChan_closed = False, closeChan_closed = False, started = 0\<rparr>"
             and evs = "[CallConsume (Some 8), CallCloseAsync, LoopReturns, CallConsume (Some 7)]"]
  by (simp add: NewNanomsg_def NewNanomsgConfig_def no_failures_def getSocketFromType_def Let_def
        Consume_def CloseAsync_def loop_exit_def)

section \<open>Properties of wrapping\<close>

text \<open>
  Claim C8. With zero pipeline constructors \<^verbatim>\<open>WrapWithPipelines\<close> returns the very input
  it was given, unchanged, and no error.
\<close>

theorem wrap_zero_pipelines: "WrapWithPipelines i [] = Inr i"
  by (simp add: WrapWithPipelines_def)

text \<open>
  The wiring that \<^verbatim>\<open>TestBasicWrapMultiPipelines\<close> checks: the first pipeline reads the
  source, the second reads the first, and a failing constructor gives its error.
\<close>

lemma TestBasicWrapMultiPipelines:
  "WrapWithPipelines (Source 1 False)
      [\<lambda>_. Inr \<lparr>pipe_tsIn = None, pipe_ts = 2, pipe_closed = False\<rparr>,
       \<lambda>_. Inr \<lparr>pipe_tsIn = None, pipe_ts = 3, pipe_closed = False\<rparr>] =
     Inr (WithPipeline
            (WithPipeline (Source 1 False) \<lparr>pipe_tsIn = Some 1, pipe_ts = 2, pipe_closed = False\<rparr>)
            \<lparr>pipe_tsIn = Some 2, pipe_ts = 3, pipe_closed = False\<rparr>)"
  "WrapWithPipelines (Source 1 False) [\<lambda>_. Inl (ErrOther ''nope'')] = Inl (ErrOther ''nope'', [])"
  by (simp_all add: WrapWithPipelines_def Pipeline_Consume_def)


section \<open>Properties of function variables\<close>

lemma not_name_char_brace [simp]: "\<not> is_name_char CHR ''}''" "\<not> is_name_char CHR '':''"
  by (simp_all add: is_name_char_def)

lemma takeWhile_stop:
  "list_all P xs \<Longrightarrow> \<not> P y \<Longrightarrow> takeWhile P (xs @ y # ys) = xs"
  by (induction xs) auto

lemma dropWhile_stop:
  "list_all P xs \<Longrightarrow> \<not> P y \<Longrightarrow> dropWhile P (xs @ y # ys) = y # ys"
  by (induction xs) auto

lemma dropWhile_Cons_split:
  "dropWhile P xs = y # ys \<Longrightarrow> xs = takeWhile P xs @ y # ys \<and> \<not> P y"
  by (metis takeWhile_dropWhile_id hd_dropWhile list.distinct(1) list.sel(1))

lemma list_all_takeWhile: "list_all P (takeWhile P xs)"
  by (induction xs) auto

lemma strip_opening_Some: "strip_opening s = Some r \<longleftrightarrow> s = ''${!'' @ r"
  by (cases s rule: strip_opening.cases) auto

lemma parse_arg_SomeD:
  assumes "parse_arg name r = Some (name', argo, rest)"
  shows "name' = name \<and> (\<exists>arg. argo = Some arg \<and> arg \<noteq> [] \<and> CHR ''}'' \<notin> set arg \<and>
           r = arg @ ''}'' @ rest)"
proof -
  let ?P = "\<lambda>c. c \<noteq> CHR ''}''"
  from assms obtain e where
    arg: "name' = name" "argo = Some (takeWhile ?P r)" "takeWhile ?P r \<noteq> []"
    and e: "dropWhile ?P r = e # rest"
    by (auto simp: parse_arg_def Let_def split: list.splits if_splits)
  from dropWhile_Cons_split[OF e] have r: "r = takeWhile ?P r @ CHR ''}'' # rest"
    by metis
  have "CHR ''}'' \<notin> set (takeWhile ?P r)"
    using set_takeWhileD[of "CHR ''}''" ?P r] by auto
  with arg r show ?thesis by auto
qed

lemma parse_name_SomeD:
  assumes "parse_name r = Some (name, argo, rest)"
  shows "name \<noteq> [] \<and> list_all is_name_char name \<and>
         (case argo of
            None \<Rightarrow> r = name @ ''}'' @ rest
          | Some arg \<Rightarrow> arg \<noteq> [] \<and> CHR ''}'' \<notin> set arg \<and> r = name @ '':'' @ arg @ ''}'' @ rest)"
proof -
  let ?n = "takeWhile is_name_char r"
  from assms have n: "?n \<noteq> []"
    by (auto simp: parse_name_def Let_def split: if_splits)
  from assms n obtain d r2 where d: "dropWhile is_name_char r = d # r2"
    by (auto simp: parse_name_def Let_def split: list.splits)
  from dropWhile_Cons_split[OF d] have r: "r = ?n @ d # r2" by simp
  from assms n d consider
      (plain) "d = CHR ''}''" "name = ?n" "argo = None" "rest = r2"
    | (witharg) "d = CHR '':''" "parse_arg ?n r2 = Some (name, argo, rest)"
    by (auto simp: parse_name_def Let_def split: if_splits)
  then show ?thesis
  proof cases
    case plain
    with r n show ?thesis by (simp add: list_all_takeWhile)
  next
    case witharg
    from parse_arg_SomeD[OF witharg(2)] obtain arg where
      "name = ?n" "argo = Some arg" "arg \<noteq> []" "CHR ''}'' \<notin> set arg" "r2 = arg @ ''}'' @ rest"
      by blast
    with r n witharg(1) show ?thesis by (simp add: list_all_takeWhile)
  qed
qed

lemma parse_reference_SomeD:
  assumes "parse_reference s = Some (name, argo, rest)"
  shows "name \<noteq> [] \<and> list_all is_name_char name \<and>
         (case argo of
            None \<Rightarrow> s = ''${!'' @ name @ ''}'' @ rest
          | Some arg \<Rightarrow> arg \<noteq> [] \<and> CHR ''}'' \<notin> set arg \<and> s = ''${!'' @ name @ '':'' @ arg @ ''}'' @ rest)"
proof -
  from assms obtain r where r: "strip_opening s = Some r" "parse_name r = Some (name, argo, rest)"
    by (auto simp: parse_reference_def split: option.splits)
  from r(1) have "s = ''${!'' @ r" by (simp only: strip_opening_Some)
  with parse_name_SomeD[OF r(2)] show ?thesis
    by (cases argo) simp_all
qed

lemma parse_reference_plain:
  "name \<noteq> [] \<Longrightarrow> list_all is_name_char name \<Longrightarrow>
   parse_reference (''${!'' @ name @ ''}'' @ rest) = Some (name, None, rest)"
  by (simp add: parse_reference_def parse_name_def takeWhile_stop dropWhile_stop)

lemma parse_reference_arg:
  assumes "name \<noteq> []" "list_all is_name_char name" "arg \<noteq> []" "CHR ''}'' \<notin> set arg"
  shows "parse_reference (''${!'' @ name @ '':'' @ arg @ ''}'' @ rest) = Some (name, Some arg, rest)"
proof -
  have a: "list_all (\<lambda>c. c \<noteq> CHR ''}'') arg"
    using assms(4) by (auto simp: list_all_iff)
  have t: "takeWhile (\<lambda>c. c \<noteq> CHR ''}'') (arg @ CHR ''}'' # rest) = arg"
    using a by (rule takeWhile_stop) simp
  have d: "dropWhile (\<lambda>c. c \<noteq> CHR ''}'') (arg @ CHR ''}'' # rest) = CHR ''}'' # rest"
    using a by (rule dropWhile_stop) simp
  have "parse_arg name (arg @ CHR ''}'' # rest) = Some (name, Some arg, rest)"
    using assms(3) t d by (simp add: parse_arg_def)
  then show ?thesis
    using assms(1,2) by (simp add: parse_reference_def parse_name_def takeWhile_stop dropWhile_stop)
qed

lemma contains_iff_suffix:
  "ContainsFunctionVariables s \<longleftrightarrow> (\<exists>pre suf. s = pre @ suf \<and> parse_reference suf \<noteq> None)"
proof (induction s)
  case Nil
  then show ?case by (simp add: parse_reference_def)
next
  case (Cons c cs)
  show ?case
  proof
    assume "ContainsFunctionVariables (c # cs)"
    then consider "parse_reference (c # cs) \<noteq> None" | "ContainsFunctionVariables cs" by auto
    then show "\<exists>pre suf. c # cs = pre @ suf \<and> parse_reference suf \<noteq> None"
    proof cases
      case 1
      then have "c # cs = [] @ (c # cs) \<and> parse_reference (c # cs) \<noteq> None" by simp
      then show ?thesis by blast
    next
      case 2
      with Cons.IH obtain pre suf where "cs = pre @ suf" "parse_reference suf \<noteq> None" by blast
      then have "c # cs = (c # pre) @ suf \<and> parse_reference suf \<noteq> None" by simp
      then show ?thesis by blast
    qed
  next
    assume "\<exists>pre suf. c # cs = pre @ suf \<and> parse_reference suf \<noteq> None"
    then obtain pre suf where ps: "c # cs = pre @ suf" "parse_reference suf \<noteq> None" by blast
    show "ContainsFunctionVariables (c # cs)"
    proof (cases pre)
      case Nil
      with ps have "parse_reference (c # cs) \<noteq> None" by simp
      then show ?thesis by simp
    next
      case (Cons p pre')
      with ps have "cs = pre' @ suf" by simp
      with ps(2) Cons.IH have "ContainsFunctionVariables cs" by blast
      then show ?thesis by simp
    qed
  qed
qed

text \<open>
  Claim C5. \<^verbatim>\<open>ContainsFunctionVariables\<close> is true of a text if and only if the text
  contains a well-formed reference: \<^verbatim>\<open>${!NAME}\<close>, or \<^verbatim>\<open>${!NAME:ARG}\<close> with a non-empty
  argument free of \<^verbatim>\<open>}\<close>, the name non-empty and made of \<^verbatim>\<open>[a-z_]\<close>. A reference with an
  empty argument, and any other sequence of \<^verbatim>\<open>$\<close>, \<^verbatim>\<open>{\<close> and \<^verbatim>\<open>}\<close>, does not count.
\<close>

theorem contains_function_variables_iff:
  "ContainsFunctionVariables s \<longleftrightarrow>
     (\<exists>pre name post. name \<noteq> [] \<and> list_all is_name_char name \<and>
        s = pre @ ''${!'' @ name @ ''}'' @ post) \<or>
     (\<exists>pre name arg post. name \<noteq> [] \<and> list_all is_name_char name \<and>
        arg \<noteq> [] \<and> CHR ''}'' \<notin> set arg \<and>
        s = pre @ ''${!'' @ name @ '':'' @ arg @ ''}'' @ post)"
  (is "?lhs \<longleftrightarrow> ?plain \<or> ?witharg")
proof
  assume ?lhs
  then obtain pre suf where s: "s = pre @ suf" and p: "parse_reference suf \<noteq> None"
    unfolding contains_iff_suffix by blast
  from p obtain name argo rest where some: "parse_reference suf = Some (name, argo, rest)"
    by (cases "parse_reference suf") auto
  note d = parse_reference_SomeD[OF some]
  show "?plain \<or> ?witharg"
  proof (cases argo)
    case None
    with d s have "name \<noteq> [] \<and> list_all is_name_char name \<and> s = pre @ ''${!'' @ name @ ''}'' @ rest"
      by simp
    then have ?plain by blast
    then show ?thesis ..
  next
    case (Some arg)
    with d s have "name \<noteq> [] \<and> list_all is_name_char name \<and> arg \<noteq> [] \<and> CHR ''}'' \<notin> set arg \<and>
        s = pre @ ''${!'' @ name @ '':'' @ arg @ ''}'' @ rest"
      by simp
    then have ?witharg by blast
    then show ?thesis ..
  qed
next
  assume "?plain \<or> ?witharg"
  then show ?lhs
  proof
    assume ?plain
    then obtain pre name post where "name \<noteq> []" "list_all is_name_char name"
      and s: "s = pre @ ''${!'' @ name @ ''}'' @ post" by blast
    then have "parse_reference (''${!'' @ name @ ''}'' @ post) \<noteq> None"
      using parse_reference_plain[of name post] by simp
    with s show ?lhs unfolding contains_iff_suffix by blast
  next
    assume ?witharg
    then obtain pre name arg post where "name \<noteq> []" "list_all is_name_char name"
      "arg \<noteq> []" "CHR ''}'' \<notin> set arg"
      and s: "s = pre @ ''${!'' @ name @ '':'' @ arg @ ''}'' @ post" by blast
    then have "parse_reference (''${!'' @ name @ '':'' @ arg @ ''}'' @ post) \<noteq> None"
      using parse_reference_arg[of name arg post] by simp
    with s show ?lhs unfolding contains_iff_suffix by blast
  qed
qed

theorem contains_function_variables_iff_witness:
  "((\<exists>pre name post. name \<noteq> [] \<and> list_all is_name_char name \<and>
        ''foo ${!foo_bar:arg1} baz'' = pre @ ''${!'' @ name @ ''}'' @ post) \<or>
    (\<exists>pre name arg post. name \<noteq> [] \<and> list_all is_name_char name \<and>
        arg \<noteq> [] \<and> CHR ''}'' \<notin> set arg \<and>
        ''foo ${!foo_bar:arg1} baz'' = pre @ ''${!'' @ name @ '':'' @ arg @ ''}'' @ post)) \<and>
   \<not> ((\<exists>pre name post. name \<noteq> [] \<and> list_all is_name_char name \<and>
        ''foo ${!foo_bar:} baz'' = pre @ ''${!'' @ name @ ''}'' @ post) \<or>
    (\<exists>pre name arg post. name \<noteq> [] \<and> list_all is_name_char name \<and>
        arg \<noteq> [] \<and> CHR ''}'' \<notin> set arg \<and>
        ''foo ${!foo_bar:} baz'' = pre @ ''${!'' @ name @ '':'' @ arg @ ''}'' @ post))"
proof -
  have yes: "ContainsFunctionVariables ''foo ${!foo_bar:arg1} baz''"
    by (simp add: parse_reference_def parse_name_def parse_arg_def is_name_char_def)
  have no: "\<not> ContainsFunctionVariables ''foo ${!foo_bar:} baz''"
    by (simp add: parse_reference_def parse_name_def parse_arg_def is_name_char_def)
  from yes no show ?thesis
    unfolding contains_function_variables_iff [of "''foo ${!foo_bar:arg1} baz''"]
      contains_function_variables_iff [of "''foo ${!foo_bar:} baz''"]
    by (rule conjI)
qed

text \<open>The table of \<^verbatim>\<open>TestFunctionVarDetection\<close>, entry by entry.\<close>

lemma TestFunctionVarDetection:
  "ContainsFunctionVariables ''foo ${!foo_bar} baz''"
  "ContainsFunctionVariables ''foo ${!foo_bar} baz ${!foo_baz}''"
  "\<not> ContainsFunctionVariables ''foo $!foo} baz $!but_not_this}''"
  "\<not> ContainsFunctionVariables ''foo ${!baz ${!or_this''"
  "\<not> ContainsFunctionVariables ''foo ${baz} ${or_this}''"
  "\<not> ContainsFunctionVariables ''nothing $ here boss {!}''"
  "ContainsFunctionVariables ''foo ${!foo_bar:arg1} baz''"
  "\<not> ContainsFunctionVariables ''foo ${!foo_bar:} baz''"
  "ContainsFunctionVariables ''foo ${!foo_bar:arg1} baz ${!foo_baz:arg2}''"
  "\<not> ContainsFunctionVariables ''foo $!foo:arg2} baz $!but_not_this:}''"
  "\<not> ContainsFunctionVariables ''nothing $ here boss {!:argnope}''"
  by (simp_all add: parse_reference_def parse_name_def parse_arg_def is_name_char_def)

lemma replace_at_reference:
  assumes "parse_reference s = Some (name, arg, rest)"
  shows "ReplaceFunctionVariables env msg cnt s =
     (case expand env msg cnt name arg of
        None \<Rightarrow>
          (case ReplaceFunctionVariables env msg cnt rest of
             (out, cnt') \<Rightarrow> (take (length s - length rest) s @ out, cnt'))
      | Some (text, cnt1) \<Rightarrow>
          (case ReplaceFunctionVariables env msg cnt1 rest of (out, cnt') \<Rightarrow> (text @ out, cnt')))"
proof (cases s)
  case Nil
  with assms show ?thesis by (simp add: parse_reference_def)
next
  case (Cons c cs)
  from assms show ?thesis unfolding Cons by simp
qed

lemma name_metadata: "list_all is_name_char ''metadata''"
  by (simp add: is_name_char_def)

lemma parse_reference_not_dollar:
  "c \<noteq> CHR ''$'' \<Longrightarrow> parse_reference (c # cs) = None"
  by (auto simp: parse_reference_def strip_opening_Some split: option.splits)

lemma replace_literal_prefix:
  "CHR ''$'' \<notin> set pre \<Longrightarrow>
   ReplaceFunctionVariables env msg cnt (pre @ s) =
     (pre @ fst (ReplaceFunctionVariables env msg cnt s),
      snd (ReplaceFunctionVariables env msg cnt s))"
proof (induction pre)
  case Nil
  then show ?case by simp
next
  case (Cons c pre)
  then have "c \<noteq> CHR ''$''" "CHR ''$'' \<notin> set pre" by auto
  with Cons.IH show ?case
    by (simp add: parse_reference_not_dollar)
qed

lemma replace_metadata_key_at:
  assumes "key \<noteq> []" "CHR ''}'' \<notin> set key"
  shows "ReplaceFunctionVariables env msg cnt (''${!metadata:'' @ key @ ''}'' @ post) =
           (GetMetadata msg key @ fst (ReplaceFunctionVariables env msg cnt post),
            snd (ReplaceFunctionVariables env msg cnt post))"
proof -
  have "parse_reference (''${!'' @ ''metadata'' @ '':'' @ key @ ''}'' @ post) =
          Some (''metadata'', Some key, post)"
    using assms by (intro parse_reference_arg name_metadata) simp_all
  then have "parse_reference (''${!metadata:'' @ key @ ''}'' @ post) = Some (''metadata'', Some key, post)"
    by simp
  from replace_at_reference[OF this] show ?thesis
    by (simp add: expand_def metadata_function_def split_beta)
qed

lemma replace_metadata_all_at:
  "ReplaceFunctionVariables env msg cnt (''${!metadata}'' @ post) =
     (metadata_json msg @ fst (ReplaceFunctionVariables env msg cnt post),
      snd (ReplaceFunctionVariables env msg cnt post))"
proof -
  have "parse_reference (''${!'' @ ''metadata'' @ ''}'' @ post) = Some (''metadata'', None, post)"
    by (intro parse_reference_plain name_metadata) simp
  then have "parse_reference (''${!metadata}'' @ post) = Some (''metadata'', None, post)"
    by simp
  from replace_at_reference[OF this] show ?thesis
    by (simp add: expand_def metadata_function_def split_beta)
qed

lemma metadata_json_sorted:
  "metadata_json msg =
     ''{'' @ join '','' (map (\<lambda>k. json_string k @ '':'' @ json_string (GetMetadata msg k))
                         (sorted_list_of_set (dom (DAList.lookup (msg_metadata msg))))) @ ''}''"
proof -
  let ?xs = "DAList.impl_of (msg_metadata msg)"
  let ?ys = "sort_key fst ?xs"
  have dist: "distinct (map fst ?xs)" by simp
  have "mset (map fst ?ys) = mset (map fst ?xs)" by simp
  then have "distinct (map fst ?ys)"
    using dist mset_eq_imp_distinct_iff by blast
  moreover have "sorted (map fst ?ys)" by (rule sorted_sort_key)
  ultimately have "sorted_list_of_set (set (map fst ?ys)) = map fst ?ys"
    by (rule sorted_list_of_set.idem_if_sorted_distinct[rotated])
  moreover have "set (map fst ?ys) = dom (DAList.lookup (msg_metadata msg))"
    by (simp add: lookup.rep_eq dom_map_of_conv_image_fst)
  ultimately have keys: "sorted_list_of_set (dom (DAList.lookup (msg_metadata msg))) = map fst ?ys"
    by simp
  have val: "GetMetadata msg k = v" if "(k, v) \<in> set ?ys" for k v
  proof -
    from that have "(k, v) \<in> set ?xs" by simp
    with dist have "map_of ?xs k = Some v" by simp
    then show ?thesis by (simp add: GetMetadata_def lookup.rep_eq)
  qed
  have "map (\<lambda>(k, v). json_string k @ '':'' @ json_string v) ?ys =
        map (\<lambda>k. json_string k @ '':'' @ json_string (GetMetadata msg k)) (map fst ?ys)"
    using val by (auto simp: map_eq_conv)
  then show ?thesis
    by (simp only: metadata_json_def keys)
qed

text \<open>
  Claim C6. For every message with metadata \<open>M\<close> and every text in which a reference
  follows a prefix free of \<^verbatim>\<open>$\<close> (so that the prefix is literal), whatever text comes
  behind the reference: \<^verbatim>\<open>${!metadata:key}\<close> is replaced by the value of \<open>key\<close> in \<open>M\<close>, or
  by the empty string when the key is absent; \<^verbatim>\<open>${!metadata}\<close> is replaced by a JSON
  object of all of \<open>M\<close> whose keys are in lexicographic order, so that the metadata
  foo:bar, baz:qux always gives \<^verbatim>\<open>{"baz":"qux","foo":"bar"}\<close>. The prefix stays as it is,
  the text behind the reference is rewritten in its turn, and the counters are those
  left by rewriting that text.
\<close>

theorem metadata_interpolation:
  assumes "CHR ''$'' \<notin> set pre"
  shows
  \<open>(key \<noteq> [] \<and> CHR ''}'' \<notin> set key \<longrightarrow>
      ReplaceFunctionVariables env msg cnt (pre @ ''${!metadata:'' @ key @ ''}'' @ post) =
        (pre @ (case DAList.lookup (msg_metadata msg) key of Some v \<Rightarrow> v | None \<Rightarrow> []) @
           fst (ReplaceFunctionVariables env msg cnt post),
         snd (ReplaceFunctionVariables env msg cnt post))) \<and>
   ReplaceFunctionVariables env msg cnt (pre @ ''${!metadata}'' @ post) =
     (pre @
      (''{'' @ join '','' (map (\<lambda>k. json_string k @ '':'' @ json_string (GetMetadata msg k))
                          (sorted_list_of_set (dom (DAList.lookup (msg_metadata msg))))) @ ''}'') @
      fst (ReplaceFunctionVariables env msg cnt post),
      snd (ReplaceFunctionVariables env msg cnt post)) \<and>
   (DAList.lookup (msg_metadata msg) = [''foo'' \<mapsto> ''bar'', ''baz'' \<mapsto> ''qux''] \<longrightarrow>
      ReplaceFunctionVariables env msg cnt (pre @ ''${!metadata}'' @ post) =
        (pre @ ''{"baz":"qux","foo":"bar"}'' @ fst (ReplaceFunctionVariables env msg cnt post),
         snd (ReplaceFunctionVariables env msg cnt post)))\<close>
proof (intro conjI impI)
  assume "key \<noteq> [] \<and> CHR ''}'' \<notin> set key"
  then have at: "ReplaceFunctionVariables env msg cnt (''${!metadata:'' @ key @ ''}'' @ post) =
           (GetMetadata msg key @ fst (ReplaceFunctionVariables env msg cnt post),
            snd (ReplaceFunctionVariables env msg cnt post))"
    using replace_metadata_key_at by blast
  show "ReplaceFunctionVariables env msg cnt (pre @ ''${!metadata:'' @ key @ ''}'' @ post) =
        (pre @ (case DAList.lookup (msg_metadata msg) key of Some v \<Rightarrow> v | None \<Rightarrow> []) @
           fst (ReplaceFunctionVariables env msg cnt post),
         snd (ReplaceFunctionVariables env msg cnt post))"
    unfolding replace_literal_prefix[OF assms] at GetMetadata_def by simp
next
  show "ReplaceFunctionVariables env msg cnt (pre @ ''${!metadata}'' @ post) =
     (pre @
      (''{'' @ join '','' (map (\<lambda>k. json_string k @ '':'' @ json_string (GetMetadata msg k))
                          (sorted_list_of_set (dom (DAList.lookup (msg_metadata msg))))) @ ''}'') @
      fst (ReplaceFunctionVariables env msg cnt post),
      snd (ReplaceFunctionVariables env msg cnt post))"
    unfolding replace_literal_prefix[OF assms] replace_metadata_all_at
    by (simp only: metadata_json_sorted fst_conv snd_conv)
next
  assume m: "DAList.lookup (msg_metadata msg) = [''foo'' \<mapsto> ''bar'', ''baz'' \<mapsto> ''qux'']"
  have "sorted [''baz'', ''foo'']" "distinct [''baz'', ''foo'']" by simp_all
  then have "sorted_list_of_set (set [''baz'', ''foo'']) = [''baz'', ''foo'']"
    by (rule sorted_list_of_set.idem_if_sorted_distinct)
  moreover have "dom (DAList.lookup (msg_metadata msg)) = set [''baz'', ''foo'']"
    by (auto simp: m)
  ultimately have keys: "sorted_list_of_set (dom (DAList.lookup (msg_metadata msg))) = [''baz'', ''foo'']"
    by simp
  have vals: "GetMetadata msg ''baz'' = ''qux''" "GetMetadata msg ''foo'' = ''bar''"
    by (simp_all add: GetMetadata_def m)
  have json: \<open>metadata_json msg = ''{"baz":"qux","foo":"bar"}''\<close>
    by (simp add: metadata_json_sorted keys vals json_string_def json_escape_def)
  show \<open>ReplaceFunctionVariables env msg cnt (pre @ ''${!metadata}'' @ post) =
        (pre @ ''{"baz":"qux","foo":"bar"}'' @ fst (ReplaceFunctionVariables env msg cnt post),
         snd (ReplaceFunctionVariables env msg cnt post))\<close>
    unfolding replace_literal_prefix[OF assms] replace_metadata_all_at json
    by (simp only: fst_conv snd_conv)
qed

theorem metadata_interpolation_witness:
  \<open>ReplaceFunctionVariables example_env
      \<lparr>msg_parts = [], msg_metadata = DAList.update ''baz'' ''qux'' (DAList.update ''foo'' ''bar'' DAList.empty)\<rparr>
      no_counts ''foo ${!metadata:foo} baz ${!metadata:missing}'' = (''foo bar baz '', no_counts) \<and>
   ReplaceFunctionVariables example_env
      \<lparr>msg_parts = [], msg_metadata = DAList.update ''baz'' ''qux'' (DAList.update ''foo'' ''bar'' DAList.empty)\<rparr>
      no_counts ''all: ${!metadata}.'' = (''all: {"baz":"qux","foo":"bar"}.'', no_counts)\<close>
proof -
  let ?m = "\<lparr>msg_parts = [], msg_metadata = DAList.update ''baz'' ''qux'' (DAList.update ''foo'' ''bar'' DAList.empty)\<rparr>"
  let ?R = "ReplaceFunctionVariables example_env ?m no_counts"
  have look: "DAList.lookup (msg_metadata ?m) = [''foo'' \<mapsto> ''bar'', ''baz'' \<mapsto> ''qux'']"
    by (simp add: lookup_update fun_eq_iff)
  have pres: "CHR ''$'' \<notin> set ''foo ''" "CHR ''$'' \<notin> set '' baz ''" "CHR ''$'' \<notin> set ''all: ''"
    by simp_all
  have keys: "''foo'' \<noteq> [] \<and> CHR ''}'' \<notin> set ''foo''" "''missing'' \<noteq> [] \<and> CHR ''}'' \<notin> set ''missing''"
    by simp_all
  have vals: "(case DAList.lookup (msg_metadata ?m) ''foo'' of Some v \<Rightarrow> v | None \<Rightarrow> []) = ''bar''"
    "(case DAList.lookup (msg_metadata ?m) ''missing'' of Some v \<Rightarrow> v | None \<Rightarrow> []) = []"
    by (simp_all only: look) simp_all
  have dot: "?R ''.'' = (''.'', no_counts)"
    by (simp add: parse_reference_def)
  have nil: "?R [] = ([], no_counts)"
    by simp
  have missing: "?R ('' baz '' @ ''${!metadata:'' @ ''missing'' @ ''}'' @ []) = ('' baz '', no_counts)"
    using metadata_interpolation
      [where pre = "'' baz ''" and key = "''missing''" and post = "[]" and env = example_env
         and cnt = no_counts and msg = ?m, OF pres(2), THEN conjunct1, THEN mp, OF keys(2)]
    unfolding vals nil by simp
  have foo: "?R (''foo '' @ ''${!metadata:'' @ ''foo'' @ ''}'' @ ('' baz '' @ ''${!metadata:'' @ ''missing'' @ ''}'' @ [])) =
               (''foo bar baz '', no_counts)"
    using metadata_interpolation
      [where pre = "''foo ''" and key = "''foo''"
         and post = "'' baz '' @ ''${!metadata:'' @ ''missing'' @ ''}'' @ []" and env = example_env
         and cnt = no_counts and msg = ?m, OF pres(1), THEN conjunct1, THEN mp, OF keys(1)]
    unfolding vals missing by simp
  have whole: \<open>?R (''all: '' @ ''${!metadata}'' @ ''.'') = (''all: {"baz":"qux","foo":"bar"}.'', no_counts)\<close>
    using metadata_interpolation
      [where pre = "''all: ''" and key = "''foo''" and post = "''.''" and env = example_env
         and cnt = no_counts and msg = ?m, OF pres(3), THEN conjunct2, THEN conjunct2, THEN mp, OF look]
    unfolding dot by simp
  have s1: "''foo '' @ ''${!metadata:'' @ ''foo'' @ ''}'' @ ('' baz '' @ ''${!metadata:'' @ ''missing'' @ ''}'' @ []) =
            ''foo ${!metadata:foo} baz ${!metadata:missing}''"
    and s2: "''all: '' @ ''${!metadata}'' @ ''.'' = ''all: ${!metadata}.''"
    by simp_all
  from foo whole show ?thesis
    unfolding s1 s2 by (intro conjI)
qed


text \<open>
  \<^verbatim>\<open>TestMetadataFunction\<close> and scenario S4 of the specification, on the message whose
  metadata is set to foo:bar and then baz:qux.
\<close>

lemma TestMetadataFunction:
  \<open>fst (ReplaceFunctionVariables env
          (SetMetadata ''baz'' ''qux'' (SetMetadata ''foo'' ''bar'' (message_New [])))
          cnt ''foo ${!metadata:foo} baz'') = ''foo bar baz''\<close>
  \<open>fst (ReplaceFunctionVariables env
          (SetMetadata ''baz'' ''qux'' (SetMetadata ''foo'' ''bar'' (message_New [])))
          cnt ''foo ${!metadata:bar} baz'') = ''foo  baz''\<close>
  \<open>fst (ReplaceFunctionVariables env
          (SetMetadata ''baz'' ''qux'' (SetMetadata ''foo'' ''bar'' (message_New [])))
          cnt ''${!metadata}'') = ''{"baz":"qux","foo":"bar"}''\<close>
  \<open>fst (ReplaceFunctionVariables env
          (SetMetadata ''baz'' ''qux'' (SetMetadata ''foo'' ''bar'' (message_New [])))
          cnt ''foo ${!metadata:foo} baz ${!metadata:missing}'') = ''foo bar baz ''\<close>
  by (simp_all add: parse_reference_def parse_name_def parse_arg_def is_name_char_def expand_def
        metadata_function_def metadata_json_def json_string_def json_escape_def GetMetadata_def
        SetMetadata_def message_New_def update.rep_eq empty.rep_eq)

text \<open>\<^verbatim>\<open>TestEchoFunction\<close>, \<^verbatim>\<open>TestCountersFunction\<close> and the unrecognised names of \<^verbatim>\<open>TestFunctionSwapping\<close>.\<close>

lemma TestEchoFunction:
  "fst (ReplaceFunctionVariables env msg cnt ''foo ${!echo:bar}'') = ''foo bar''"
  "fst (ReplaceFunctionVariables env msg cnt ''foo ${!echo}'') = ''foo ''"
  "fst (ReplaceFunctionVariables env msg cnt ''foo ${!echo:bar} ${!echo:baz}'') = ''foo bar baz''"
  by (simp_all add: parse_reference_def parse_name_def parse_arg_def is_name_char_def expand_def)

lemma TestCountersFunction:
  "ReplaceFunctionVariables env msg (\<lambda>_. 0) ''foo1: ${!count:foo}'' = (''foo1: 1'', (\<lambda>_. 0)(''foo'' := 1))"
  "fst (ReplaceFunctionVariables env msg ((\<lambda>_. 0)(''foo'' := 1)) ''foo2: ${!count:foo} ${!count:foo}'') =
     ''foo2: 2 3''"
  by (simp_all add: parse_reference_def parse_name_def parse_arg_def is_name_char_def expand_def)

lemma TestFunctionSwapping:
  "fst (ReplaceFunctionVariables env msg cnt ''foo ${!} baz'') = ''foo ${!} baz''"
  "fst (ReplaceFunctionVariables env msg cnt ''foo ${!does_not_exist} baz'') = ''foo ${!does_not_exist} baz''"
  "fst (ReplaceFunctionVariables env msg cnt ''foo ${!hostname} baz'') = ''foo '' @ env_hostname env @ '' baz''"
  by (simp_all add: parse_reference_def parse_name_def parse_arg_def is_name_char_def expand_def)

end
